theory Spec2Isabelle
  imports Complex_Main "HOL-Library.AList"
begin

text \<open>
  A model of the services of the WeatherBoard client that keep the favourites and the
  weather cache: \<open>FavoritesUpdateService\<close> (\<open>updateAllFavorites\<close>), \<open>FavoritesService\<close>
  (\<open>toggleFavorite\<close>), \<open>api/graphql\<close> (\<open>checkIfCityInFavorites\<close>, \<open>saveFavoriteCity\<close>),
  \<open>WeatherService\<close> (\<open>fetchWeatherFromApi\<close>, \<open>getWeatherData\<close>) and \<open>GeoService\<close>
  (\<open>searchCities\<close>). An asynchronous function is modelled by the value its promise
  settles with: \<open>Inl\<close> for a rejection or a thrown error, \<open>Inr\<close> for the value returned.
  A \<open>try\<close> with its \<open>catch\<close> is a function for the body and one that handles \<open>Inl\<close>.
\<close>

section \<open>JavaScript values and runtime primitives\<close>

text \<open>
  The favourites of WeatherBoard are stored remotely as items whose \<open>metadata\<close> and
  \<open>content\<close> are JSON text. The services parse that text with \<open>JSON.parse\<close> and read
  properties of whatever comes out, so the model has a type of JavaScript values.
  Numbers are the reals that the IEEE doubles of the runtime denote (JSON has no NaN and
  no infinities); an object is the list of its own properties, each name once.
\<close>

datatype jsval =
    JUndefined
  | JNull
  | JBool bool
  | JNum real
  | JStr string
  | JArr "jsval list"
  | JObj "(string \<times> jsval) list"

text \<open>What the source throws, rejects with, or catches.\<close>

datatype error =
    SyntaxError
  | TypeError
  | NetworkError
  | ApiStatus nat
  | ForecastStatus nat
  | ApolloError

text \<open>Truthiness, as used by \<open>if (v)\<close>, \<open>!v\<close>, \<open>a && b\<close> and \<open>a || b\<close>.\<close>

fun truthy :: "jsval \<Rightarrow> bool" where
  "truthy JUndefined = False"
| "truthy JNull = False"
| "truthy (JBool b) = b"
| "truthy (JNum n) = (n \<noteq> 0)"
| "truthy (JStr s) = (s \<noteq> [])"
| "truthy (JArr xs) = True"
| "truthy (JObj kvs) = True"

text \<open>\<open>a || b\<close> on values.\<close>

definition js_or :: "jsval \<Rightarrow> jsval \<Rightarrow> jsval" where
  "js_or a b = (if truthy a then a else b)"

text \<open>
  Member access \<open>v.p\<close>: a TypeError on \<open>null\<close> and \<open>undefined\<close>, the property of an
  object (\<open>undefined\<close> when it has none of that name), and \<open>undefined\<close> on the other
  values, for the property names the services read (none of them is a property of a
  string, an array, a number or a boolean).
\<close>

fun get_prop :: "jsval \<Rightarrow> string \<Rightarrow> error + jsval" where
  "get_prop JUndefined p = Inl TypeError"
| "get_prop JNull p = Inl TypeError"
| "get_prop (JObj kvs) p = Inr (case map_of kvs p of None \<Rightarrow> JUndefined | Some v \<Rightarrow> v)"
| "get_prop v p = Inr JUndefined"

text \<open>
  Strict equality \<open>a === b\<close>. Two objects or arrays are equal only when they are the same
  reference; the values compared by the services come from different \<open>JSON.parse\<close> calls,
  so such a comparison is false.
\<close>

fun strict_eq :: "jsval \<Rightarrow> jsval \<Rightarrow> bool" where
  "strict_eq JUndefined b = (b = JUndefined)"
| "strict_eq JNull b = (b = JNull)"
| "strict_eq (JBool a) b = (b = JBool a)"
| "strict_eq (JNum a) b = (b = JNum a)"
| "strict_eq (JStr a) b = (b = JStr a)"
| "strict_eq (JArr a) b = False"
| "strict_eq (JObj a) b = False"

text \<open>
  Element access \<open>v[0]\<close>: a TypeError on \<open>null\<close> and \<open>undefined\<close>, the first element of
  an array, the property \<open>"0"\<close> of an object, the first character of a string.
\<close>

fun get_index0 :: "jsval \<Rightarrow> error + jsval" where
  "get_index0 JUndefined = Inl TypeError"
| "get_index0 JNull = Inl TypeError"
| "get_index0 (JArr xs) = Inr (case xs of [] \<Rightarrow> JUndefined | x # rest \<Rightarrow> x)"
| "get_index0 (JObj kvs) = Inr (case map_of kvs ''0'' of None \<Rightarrow> JUndefined | Some v \<Rightarrow> v)"
| "get_index0 (JStr s) = Inr (case s of [] \<Rightarrow> JUndefined | c # rest \<Rightarrow> JStr [c])"
| "get_index0 v = Inr JUndefined"

text \<open>Sequencing of steps that may throw: the first exception ends the block.\<close>

definition andThen :: "error + 'a \<Rightarrow> ('a \<Rightarrow> error + 'b) \<Rightarrow> error + 'b" where
  "andThen m f = (case m of Inl e \<Rightarrow> Inl e | Inr x \<Rightarrow> f x)"

text \<open>A promise that fulfils rather than rejects, a call that returns rather than throws.\<close>

definition fulfils :: "error + 'a \<Rightarrow> bool" where
  "fulfils m = (case m of Inl e \<Rightarrow> False | Inr x \<Rightarrow> True)"

fun try_map :: "('a \<Rightarrow> error + 'b) \<Rightarrow> 'a list \<Rightarrow> error + 'b list" where
  "try_map f [] = Inr []"
| "try_map f (x # xs) =
     (case f x of
        Inl e \<Rightarrow> Inl e
      | Inr y \<Rightarrow> (case try_map f xs of Inl e \<Rightarrow> Inl e | Inr ys \<Rightarrow> Inr (y # ys)))"

text \<open>
  The built-ins of the runtime that the services call are parameters of the model:
  \<open>JSON.parse\<close> (\<open>None\<close> when it throws a SyntaxError), \<open>JSON.stringify\<close>, the time value
  of \<open>new Date(s)\<close> in milliseconds (\<open>None\<close> for an invalid date, whose time value is NaN),
  the text of a number, \<open>String.prototype.toLowerCase\<close>, \<open>Math.round\<close> (\<open>Inl\<close> when the
  conversion of its argument to a number throws), \<open>Date.prototype.toISOString\<close> of a time
  value, and the short weekday name of \<open>new Date(dt * 1000)\<close> (\<open>Inl\<close> when the conversion
  of \<open>dt\<close> to a number throws).
\<close>

record platform =
  JSON_parse :: "string \<Rightarrow> jsval option"
  JSON_stringify :: "jsval \<Rightarrow> string"
  Date_parse :: "string \<Rightarrow> int option"
  Number_toString :: "real \<Rightarrow> string"
  toLowerCase :: "string \<Rightarrow> string"
  Math_round :: "jsval \<Rightarrow> error + jsval"
  toISOString :: "int \<Rightarrow> string"
  weekday_short :: "jsval \<Rightarrow> error + string"

text \<open>
  The string conversion that a template literal applies to \<open>${v}\<close>. A primitive value has
  its text. An array is converted by \<open>Array.prototype.join\<close>: the texts of its elements
  with commas between them, the empty text for \<open>null\<close> and \<open>undefined\<close>. An object is
  converted by its \<open>toString\<close>: a parsed object inherits the one that yields
  \<open>[object Object]\<close>, unless it has a property \<open>toString\<close> of its own, which is no
  function; then the inherited \<open>valueOf\<close> (or an own property of that name) yields no text
  either and the conversion throws a TypeError.
\<close>

fun ToString :: "platform \<Rightarrow> jsval \<Rightarrow> error + string"
  and join_elements :: "platform \<Rightarrow> jsval list \<Rightarrow> error + string" where
  "ToString P JUndefined = Inr ''undefined''"
| "ToString P JNull = Inr ''null''"
| "ToString P (JBool b) = Inr (if b then ''true'' else ''false'')"
| "ToString P (JNum n) = Inr (Number_toString P n)"
| "ToString P (JStr s) = Inr s"
| "ToString P (JArr xs) = join_elements P xs"
| "ToString P (JObj kvs) =
     (if map_of kvs ''toString'' = None then Inr ''[object Object]'' else Inl TypeError)"
| "join_elements P [] = Inr []"
| "join_elements P (x # xs) =
     (case (if x = JUndefined \<or> x = JNull then Inr [] else ToString P x) of
        Inl e \<Rightarrow> Inl e
      | Inr s \<Rightarrow>
          if xs = [] then Inr s
          else (case join_elements P xs of Inl e \<Rightarrow> Inl e | Inr rest \<Rightarrow> Inr (s @ '','' @ rest)))"

text \<open>\<open>new Date(a) > new Date(b)\<close>: a comparison with NaN is false.\<close>

definition date_gt :: "platform \<Rightarrow> string \<Rightarrow> string \<Rightarrow> bool" where
  "date_gt P a b =
     (case Date_parse P a of
        None \<Rightarrow> False
      | Some x \<Rightarrow> (case Date_parse P b of None \<Rightarrow> False | Some y \<Rightarrow> y < x))"

section \<open>Favourite items (FavoritesUpdateService, FavoritesService, api/graphql)\<close>

text \<open>
  The fields that the \<open>LIST_ITEMS\<close> query returns for every item. Field names carry the
  prefix \<open>item_\<close> (\<open>id\<close> and \<open>name\<close> are taken, and other records have the same fields).
\<close>

record FavoriteItem =
  item_id :: string
  item_name :: string
  item_content :: string
  item_metadata :: string
  item_createdAt :: string
  item_updatedAt :: string

subsection \<open>updateAllFavorites: filtering\<close>

text \<open>
  The body of the \<open>try\<close> in the callback of \<open>allItems.filter\<close>: \<open>JSON.parse\<close> runs first,
  then \<open>item.content === "" || metadata.deleted === true\<close>, whose right operand is only
  evaluated for a non-empty content.
\<close>

definition validItems_try :: "platform \<Rightarrow> FavoriteItem \<Rightarrow> error + bool" where
  "validItems_try P item =
     (case JSON_parse P (item_metadata item) of
        None \<Rightarrow> Inl SyntaxError
      | Some md \<Rightarrow>
          if item_content item = [] then Inr False
          else (case get_prop md ''deleted'' of
                  Inl e \<Rightarrow> Inl e
                | Inr d \<Rightarrow> if strict_eq d (JBool True) then Inr False else Inr True))"

text \<open>The callback with its \<open>catch\<close>, which skips the item.\<close>

definition validItems_keep :: "platform \<Rightarrow> FavoriteItem \<Rightarrow> bool" where
  "validItems_keep P item =
     (case validItems_try P item of Inl e \<Rightarrow> False | Inr b \<Rightarrow> b)"

definition validItems :: "platform \<Rightarrow> FavoriteItem list \<Rightarrow> FavoriteItem list" where
  "validItems P allItems = filter (validItems_keep P) allItems"

subsection \<open>updateAllFavorites: deduplication\<close>

text \<open>
  The key computed in the \<open>try\<close> of the \<open>forEach\<close> callback:
  \<open>`${item.name.toLowerCase()}-${metadata.weatherId || 0}`\<close>. The \<open>try\<close> throws when
  the metadata does not parse, when it is \<open>null\<close>, and when the \<open>weatherId\<close> has no text.
\<close>

definition composite_key :: "platform \<Rightarrow> FavoriteItem \<Rightarrow> error + string" where
  "composite_key P item =
     (case JSON_parse P (item_metadata item) of
        None \<Rightarrow> Inl SyntaxError
      | Some md \<Rightarrow>
          andThen (get_prop md ''weatherId'') (\<lambda>w.
          andThen (ToString P (js_or w (JNum 0))) (\<lambda>weatherId.
            Inr (toLowerCase P (item_name item) @ ''-'' @ weatherId))))"

text \<open>
  The key under which the callback files the item: the \<open>catch\<close> (\<open>If parsing fails, use
  just the city name as key\<close>) uses the lower-case name alone.
\<close>

definition item_key :: "platform \<Rightarrow> FavoriteItem \<Rightarrow> string" where
  "item_key P item =
     (case composite_key P item of Inl e \<Rightarrow> toLowerCase P (item_name item) | Inr k \<Rightarrow> k)"

text \<open>
  \<open>cityMap\<close> is a JavaScript \<open>Map\<close>: it iterates in the order in which keys were first
  inserted, and \<open>set\<close> on a present key replaces the value in place. That is an
  association list under \<open>AList.update\<close>. One step of the \<open>forEach\<close> (both branches of the
  callback run the same test and the same \<open>set\<close>):
\<close>

definition cityMap_step ::
  "platform \<Rightarrow> (string \<times> FavoriteItem) list \<Rightarrow> FavoriteItem \<Rightarrow> (string \<times> FavoriteItem) list" where
  "cityMap_step P cityMap item =
     (let key = item_key P item in
      case map_of cityMap key of
        None \<Rightarrow> AList.update key item cityMap
      | Some old \<Rightarrow>
          if date_gt P (item_updatedAt item) (item_updatedAt old)
          then AList.update key item cityMap
          else cityMap)"

definition build_cityMap :: "platform \<Rightarrow> FavoriteItem list \<Rightarrow> (string \<times> FavoriteItem) list" where
  "build_cityMap P items = foldl (cityMap_step P) [] items"

text \<open>\<open>favorites = Array.from(cityMap.values())\<close> for the list that the query returned.\<close>

definition favorites_of :: "platform \<Rightarrow> FavoriteItem list \<Rightarrow> FavoriteItem list" where
  "favorites_of P allItems = map snd (build_cityMap P (validItems P allItems))"

section \<open>GeoService\<close>

text \<open>
  \<open>City\<close> is declared as \<open>{name: string, lat: number, lon: number, country: string}\<close>.
  FavoritesUpdateService fills \<open>lat\<close>, \<open>lon\<close> and \<open>country\<close> with whatever the parsed
  metadata holds, so these three fields are JavaScript values here; a city that obeys the
  declaration has \<open>JNum\<close> coordinates and a \<open>JStr\<close> country.
\<close>

record City =
  city_name :: string
  city_lat :: jsval
  city_lon :: jsval
  city_country :: jsval

text \<open>
  \<open>isInternetAvailable\<close> (utils/NetworkUtils): \<open>isConnected && isInternetReachable\<close> of
  the network state, \<open>false\<close> when reading the state throws.
\<close>

definition isInternetAvailable :: "error + bool \<times> bool \<Rightarrow> bool" where
  "isInternetAvailable networkState =
     (case networkState of
        Inl e \<Rightarrow> False
      | Inr (isConnected, isInternetReachable) \<Rightarrow> isConnected \<and> isInternetReachable)"

text \<open>\<open>s.includes(q)\<close>: \<open>q\<close> occurs in \<open>s\<close> as a contiguous piece.\<close>

fun str_includes :: "string \<Rightarrow> string \<Rightarrow> bool" where
  "str_includes [] q = (q = [])"
| "str_includes (c # s) q = (take (length q) (c # s) = q \<or> str_includes s q)"

text \<open>
  What \<open>searchCities\<close> sees of the outside: the network state, the stored list of recent
  searches (\<open>None\<close> when the key holds nothing), and the answer of the geocoding endpoint
  to a query: \<open>Inl\<close> when \<open>fetch\<close> rejects, else the \<open>ok\<close> flag, the status and the parsed
  body (\<open>None\<close> when \<open>response.json()\<close> rejects). Strings are sequences of the units
  that \<open>query.length\<close> counts.
\<close>

record geo_response =
  geo_ok :: bool
  geo_status :: nat
  geo_json :: "City list option"

record geo_world =
  geo_networkState :: "error + bool \<times> bool"
  recent_city_searches :: "City list option"
  geo_fetch :: "string \<Rightarrow> error + geo_response"

text \<open>Calls that leave the function, in the order in which \<open>searchCities\<close> makes them.\<close>

datatype geo_call = GetNetworkState | GetRecentSearches | GeoFetch string

definition getRecentSearches :: "geo_world \<Rightarrow> City list" where
  "getRecentSearches G = (case recent_city_searches G of None \<Rightarrow> [] | Some cs \<Rightarrow> cs)"

text \<open>The body of the \<open>try\<close> of \<open>searchCities\<close>.\<close>

definition searchCities_try ::
  "platform \<Rightarrow> geo_world \<Rightarrow> string \<Rightarrow> (error + City list) \<times> geo_call list" where
  "searchCities_try P G query =
     (if \<not> isInternetAvailable (geo_networkState G)
      then (Inr (filter (\<lambda>city. str_includes (toLowerCase P (city_name city)) (toLowerCase P query))
                   (getRecentSearches G)),
            [GetNetworkState, GetRecentSearches])
      else (case geo_fetch G query of
              Inl e \<Rightarrow> (Inl e, [GetNetworkState, GeoFetch query])
            | Inr response \<Rightarrow>
                if \<not> geo_ok response
                then (Inl (ApiStatus (geo_status response)), [GetNetworkState, GeoFetch query])
                else (case geo_json response of
                        None \<Rightarrow> (Inl SyntaxError, [GetNetworkState, GeoFetch query])
                      | Some data \<Rightarrow> (Inr data, [GetNetworkState, GeoFetch query]))))"

text \<open>\<open>searchCities\<close>: the length test comes before the \<open>try\<close>; the \<open>catch\<close> returns \<open>[]\<close>.\<close>

definition searchCities ::
  "platform \<Rightarrow> geo_world \<Rightarrow> string \<Rightarrow> (error + City list) \<times> geo_call list" where
  "searchCities P G query =
     (if length query < 2 then (Inr [], [])
      else (case searchCities_try P G query of
              (Inl e, calls) \<Rightarrow> (Inr [], calls)
            | (Inr cities, calls) \<Rightarrow> (Inr cities, calls)))"

section \<open>WeatherService\<close>

record forecast_entry =
  fc_date :: string
  fc_temperature :: jsval
  fc_icon :: jsval

text \<open>
  \<open>WeatherData\<close>. The fields copied from the provider's answer hold whatever the answer
  holds; \<open>lastUpdated\<close> is a string and \<open>city\<close> the name of the requested city.
\<close>

record WeatherData =
  wd_city :: string
  wd_temperature :: jsval
  wd_conditions :: jsval
  wd_humidity :: jsval
  wd_windSpeed :: jsval
  wd_icon :: jsval
  wd_description :: jsval
  wd_weatherId :: jsval
  wd_lastUpdated :: string
  wd_forecast :: "forecast_entry list"
  wd_lat :: jsval
  wd_lon :: jsval
  wd_country :: jsval
  wd_timezone :: jsval
  wd_sunrise :: jsval
  wd_sunset :: jsval

definition CACHE_EXPIRATION :: int where
  "CACHE_EXPIRATION = 60 * 60 * 1000"

text \<open>
  The cache key \<open>`${city.name}-${city.country}`\<close>; the template literal throws when the
  country has no text.
\<close>

definition cityKey :: "platform \<Rightarrow> City \<Rightarrow> error + string" where
  "cityKey P city =
     andThen (ToString P (city_country city)) (\<lambda>country. Inr (city_name city @ ''-'' @ country))"

text \<open>
  The texts of \<open>${city.lat}\<close> and \<open>${city.lon}\<close>, which \<open>fetchWeatherFromApi\<close> puts into a
  line of its log and into its two URLs, and \<open>getGeoDataForCity\<close> into a line of its log.
\<close>

definition coordinates_text :: "platform \<Rightarrow> City \<Rightarrow> error + string \<times> string" where
  "coordinates_text P city =
     andThen (ToString P (city_lat city)) (\<lambda>lat.
     andThen (ToString P (city_lon city)) (\<lambda>lon. Inr (lat, lon)))"

text \<open>
  An HTTP answer: the \<open>ok\<close> flag, the status, and the parsed body (\<open>None\<close> when
  \<open>response.json()\<close> rejects). The weather provider is asked through two URLs, which
  differ from request to request in the texts of \<open>city.lat\<close> and \<open>city.lon\<close>; \<open>Inl\<close> is a
  \<open>fetch\<close> that rejects. \<open>net_now\<close> is the clock (\<open>Date.now()\<close>, \<open>new Date()\<close>) in
  milliseconds.
\<close>

record http_response =
  resp_ok :: bool
  resp_status :: nat
  resp_json :: "jsval option"

record net =
  net_networkState :: "error + bool \<times> bool"
  net_now :: int
  fetch_weather :: "string \<Rightarrow> string \<Rightarrow> error + http_response"
  fetch_forecast :: "string \<Rightarrow> string \<Rightarrow> error + http_response"

text \<open>\<open>list.filter((_, index) => index % 8 === 0)\<close>.\<close>

definition every_8th :: "'a list \<Rightarrow> 'a list" where
  "every_8th xs = map snd (filter (\<lambda>(index, x). index mod 8 = 0) (enumerate 0 xs))"

text \<open>The callback of \<open>.map\<close> on the forecast entries.\<close>

definition forecast_item :: "platform \<Rightarrow> jsval \<Rightarrow> error + forecast_entry" where
  "forecast_item P item =
     andThen (get_prop item ''dt'') (\<lambda>dt.
     andThen (weekday_short P dt) (\<lambda>date.
     andThen (get_prop item ''main'') (\<lambda>main.
     andThen (get_prop main ''temp'') (\<lambda>temp.
     andThen (Math_round P temp) (\<lambda>temperature.
     andThen (get_prop item ''weather'') (\<lambda>weather.
     andThen (get_index0 weather) (\<lambda>w0.
     andThen (get_prop w0 ''icon'') (\<lambda>icon.
       Inr \<lparr>fc_date = date,
            fc_temperature = temperature,
            fc_icon = icon\<rparr>))))))))"

text \<open>
  \<open>processedForecast\<close>: \<open>forecastData.list\<close> must be an array for \<open>.filter\<close> to exist.
\<close>

definition processedForecast :: "platform \<Rightarrow> jsval \<Rightarrow> error + forecast_entry list" where
  "processedForecast P forecastData =
     andThen (get_prop forecastData ''list'') (\<lambda>l.
       case l of
         JArr entries \<Rightarrow> try_map (forecast_item P) (take 5 (every_8th entries))
       | other \<Rightarrow> Inl TypeError)"

text \<open>The object literal \<open>result\<close>, its properties evaluated in the order written.\<close>

definition build_result ::
  "platform \<Rightarrow> int \<Rightarrow> City \<Rightarrow> jsval \<Rightarrow> forecast_entry list \<Rightarrow> error + WeatherData" where
  "build_result P now city currentData forecast =
     andThen (get_prop currentData ''main'') (\<lambda>main.
     andThen (get_prop main ''temp'') (\<lambda>temp.
     andThen (Math_round P temp) (\<lambda>temperature.
     andThen (get_prop currentData ''weather'') (\<lambda>weather.
     andThen (get_index0 weather) (\<lambda>w0.
     andThen (get_prop w0 ''main'') (\<lambda>conditions.
     andThen (get_prop main ''humidity'') (\<lambda>humidity.
     andThen (get_prop currentData ''wind'') (\<lambda>wind.
     andThen (get_prop wind ''speed'') (\<lambda>speed.
     andThen (get_prop w0 ''icon'') (\<lambda>icon.
     andThen (get_prop w0 ''description'') (\<lambda>description.
     andThen (get_prop currentData ''id'') (\<lambda>weatherId.
     andThen (get_prop currentData ''timezone'') (\<lambda>timezone.
     andThen (get_prop currentData ''sys'') (\<lambda>sys.
     andThen (get_prop sys ''sunrise'') (\<lambda>sunrise.
     andThen (get_prop sys ''sunset'') (\<lambda>sunset.
       Inr \<lparr>wd_city = city_name city,
            wd_temperature = temperature,
            wd_conditions = conditions,
            wd_humidity = humidity,
            wd_windSpeed = speed,
            wd_icon = icon,
            wd_description = description,
            wd_weatherId = weatherId,
            wd_lastUpdated = toISOString P now,
            wd_forecast = forecast,
            wd_lat = city_lat city,
            wd_lon = city_lon city,
            wd_country = city_country city,
            wd_timezone = timezone,
            wd_sunrise = sunrise,
            wd_sunset = sunset\<rparr>))))))))))))))))"

text \<open>
  The asynchronous function stored in \<open>activeRequests[cityKey]\<close>, from the two answers
  to its value: it rejects when a \<open>fetch\<close> rejected, when an answer is not \<open>ok\<close>, when a
  body does not parse, and when reading the bodies throws.
\<close>

definition request_outcome ::
  "platform \<Rightarrow> int \<Rightarrow> City \<Rightarrow> error + http_response \<Rightarrow> error + http_response \<Rightarrow>
   error + WeatherData" where
  "request_outcome P now city weatherPromise forecastPromise =
     andThen weatherPromise (\<lambda>currentResponse.
     andThen forecastPromise (\<lambda>forecastResponse.
       if \<not> resp_ok currentResponse then Inl (ApiStatus (resp_status currentResponse))
       else if \<not> resp_ok forecastResponse then Inl (ForecastStatus (resp_status forecastResponse))
       else (case resp_json currentResponse of
               None \<Rightarrow> Inl SyntaxError
             | Some currentData \<Rightarrow>
                 (case resp_json forecastResponse of
                    None \<Rightarrow> Inl SyntaxError
                  | Some forecastData \<Rightarrow>
                      andThen (processedForecast P forecastData)
                        (build_result P now city currentData)))))"

text \<open>
  \<open>fetchWeatherFromApi\<close>, one call run to its end. \<open>activeRequests\<close> maps a cache key to
  the request in flight for it, which is represented by the value it settles with. The
  key is computed before the \<open>try\<close>, so a country without a text makes the call reject
  at once. A call that finds its key returns that request; a call that does not writes
  its line of log, issues the two requests, stores the new request, awaits it, and
  deletes the key on both exits. Coordinates without a text throw inside the \<open>try\<close>,
  before any request, and the \<open>catch\<close> deletes the key and throws the error again.
\<close>

definition fetchWeatherFromApi ::
  "platform \<Rightarrow> net \<Rightarrow> (string \<rightharpoonup> error + WeatherData) \<Rightarrow> City \<Rightarrow>
   (error + WeatherData) \<times> (string \<rightharpoonup> error + WeatherData)" where
  "fetchWeatherFromApi P N activeRequests city =
     (case cityKey P city of
        Inl e \<Rightarrow> (Inl e, activeRequests)
      | Inr key \<Rightarrow>
          (case activeRequests key of
             Some inFlight \<Rightarrow> (inFlight, activeRequests)
           | None \<Rightarrow>
               (case coordinates_text P city of
                  Inl e \<Rightarrow> (Inl e, activeRequests(key := None))
                | Inr (lat, lon) \<Rightarrow>
                    (let weatherPromise = fetch_weather N lat lon;
                         forecastPromise = fetch_forecast N lat lon;
                         request = request_outcome P (net_now N) city weatherPromise forecastPromise;
                         stored = activeRequests(key \<mapsto> request)
                     in (request, stored(key := None))))))"

subsection \<open>The cache and the pending requests\<close>

text \<open>
  The state of the service: the three values it keeps in the local store under
  \<open>weather_data\<close>, \<open>weather_last_fetch\<close> and \<open>weather_pending_requests\<close> (a key that holds
  nothing reads as \<open>null\<close>, which \<open>|| {}\<close> and \<open>|| []\<close> replace), and the module variable
  \<open>activeRequests\<close>. The local store is taken to work: \<open>storeData\<close>, \<open>getData\<close> and
  \<open>removeData\<close> write, read and remove the value, and what is read back is what was
  written; their handlers for a store that fails are outside this model.
\<close>

record service_state =
  weather_data :: "string \<rightharpoonup> WeatherData"
  weather_last_fetch :: "string \<rightharpoonup> int"
  weather_pending_requests :: "City list option"
  activeRequests :: "string \<rightharpoonup> error + WeatherData"

text \<open>
  \<open>isCacheExpired\<close> of \<open>getWeatherData\<close>:
  \<open>!lastFetchTime[cityKey] || (currentTime - lastFetchTime[cityKey] > CACHE_EXPIRATION) || forceRefresh\<close>.
  A missing time and the time \<open>0\<close> are falsy.
\<close>

definition isCacheExpired :: "(string \<rightharpoonup> int) \<Rightarrow> string \<Rightarrow> int \<Rightarrow> bool \<Rightarrow> bool" where
  "isCacheExpired lastFetchTime key currentTime forceRefresh =
     (case lastFetchTime key of
        None \<Rightarrow> True
      | Some t \<Rightarrow> t = 0 \<or> currentTime - t > CACHE_EXPIRATION \<or> forceRefresh)"

text \<open>
  \<open>clearCityWeatherCache\<close> removes the entries of the city from the two caches, each
  when it is truthy; its \<open>catch\<close> throws the error again.
\<close>

definition clearCityWeatherCache ::
  "platform \<Rightarrow> service_state \<Rightarrow> City \<Rightarrow> error + service_state" where
  "clearCityWeatherCache P st city =
     andThen (cityKey P city) (\<lambda>key.
       let st1 = (if weather_data st key \<noteq> None
                  then st\<lparr>weather_data := (weather_data st)(key := None)\<rparr> else st);
           st2 = (case weather_last_fetch st key of
                    None \<Rightarrow> st1
                  | Some t \<Rightarrow>
                      if t \<noteq> 0
                      then st1\<lparr>weather_last_fetch := (weather_last_fetch st)(key := None)\<rparr>
                      else st1)
       in Inr st2)"

definition storePendingRequest :: "service_state \<Rightarrow> City \<Rightarrow> service_state" where
  "storePendingRequest st city =
     (let pendingRequests = (case weather_pending_requests st of None \<Rightarrow> [] | Some cs \<Rightarrow> cs);
          cityExists = list_ex (\<lambda>c. city_name c = city_name city \<and>
                                      strict_eq (city_country c) (city_country city))
                         pendingRequests
      in if \<not> cityExists
         then st\<lparr>weather_pending_requests := Some (pendingRequests @ [city])\<rparr>
         else st)"

text \<open>The four statements that store fresh data and the time of the call.\<close>

definition store_fresh :: "service_state \<Rightarrow> string \<Rightarrow> WeatherData \<Rightarrow> int \<Rightarrow> service_state" where
  "store_fresh st key freshData currentTime =
     st\<lparr>weather_data := (weather_data st)(key \<mapsto> freshData),
        weather_last_fetch := (weather_last_fetch st)(key \<mapsto> currentTime)\<rparr>"

text \<open>\<open>fetchWeatherFromApi\<close> on the state of the service.\<close>

definition fetch_in_state ::
  "platform \<Rightarrow> net \<Rightarrow> service_state \<Rightarrow> City \<Rightarrow> (error + WeatherData) \<times> service_state" where
  "fetch_in_state P N st city =
     (case fetchWeatherFromApi P N (activeRequests st) city of
        (r, active) \<Rightarrow> (r, st\<lparr>activeRequests := active\<rparr>))"

text \<open>
  The inner \<open>try\<close> of \<open>getWeatherData\<close>, which evicts on a forced refresh, fetches and
  stores, with its \<open>catch\<close>, which falls back on the cache and throws the error again when
  the cache has nothing for the key. \<open>None\<close> is \<open>null\<close>.
\<close>

definition fetch_fresh ::
  "platform \<Rightarrow> net \<Rightarrow> service_state \<Rightarrow> City \<Rightarrow> string \<Rightarrow> bool \<Rightarrow>
   (error + WeatherData option) \<times> service_state" where
  "fetch_fresh P N st city key forceRefresh =
     (case (if forceRefresh then clearCityWeatherCache P st city else Inr st) of
        Inl e \<Rightarrow>
          (case weather_data st key of
             Some cached \<Rightarrow> (Inr (Some cached), st)
           | None \<Rightarrow> (Inl e, st))
      | Inr st1 \<Rightarrow>
          (case fetch_in_state P N st1 city of
             (Inr freshData, st2) \<Rightarrow> (Inr (Some freshData), store_fresh st2 key freshData (net_now N))
           | (Inl e, st2) \<Rightarrow>
               (case weather_data st2 key of
                  Some cached \<Rightarrow> (Inr (Some cached), st2)
                | None \<Rightarrow> (Inl e, st2))))"

text \<open>
  The body of the outer \<open>try\<close> of \<open>getWeatherData\<close>. Its first statement computes the
  key, and throws when the country has no text.
\<close>

definition getWeatherData_try ::
  "platform \<Rightarrow> net \<Rightarrow> service_state \<Rightarrow> City \<Rightarrow> bool \<Rightarrow>
   (error + WeatherData option) \<times> service_state" where
  "getWeatherData_try P N st city forceRefresh =
     (case cityKey P city of
        Inl e \<Rightarrow> (Inl e, st)
      | Inr key \<Rightarrow>
          (let isOnline = isInternetAvailable (net_networkState N);
               currentTime = net_now N;
               expired = isCacheExpired (weather_last_fetch st) key currentTime forceRefresh
           in if isOnline \<and> expired then fetch_fresh P N st city key forceRefresh
              else
                (case weather_data st key of
                   None \<Rightarrow>
                     if \<not> isOnline then (Inr None, storePendingRequest st city)
                     else (case fetch_in_state P N st city of
                             (Inr freshData, st2) \<Rightarrow>
                               (Inr (Some freshData), store_fresh st2 key freshData currentTime)
                           | (Inl e, st2) \<Rightarrow> (Inl e, st2))
                 | Some cachedData \<Rightarrow> (Inr (Some cachedData), st))))"

text \<open>\<open>getWeatherData\<close>: the outer \<open>catch\<close> logs the error and returns \<open>null\<close>.\<close>

definition getWeatherData ::
  "platform \<Rightarrow> net \<Rightarrow> service_state \<Rightarrow> City \<Rightarrow> bool \<Rightarrow>
   (error + WeatherData option) \<times> service_state" where
  "getWeatherData P N st city forceRefresh =
     (case getWeatherData_try P N st city forceRefresh of
        (Inl e, st') \<Rightarrow> (Inr None, st')
      | (Inr r, st') \<Rightarrow> (Inr r, st'))"

section \<open>api/graphql: saving and checking favourites\<close>

text \<open>\<open>FavoriteWeatherData\<close>; an optional field that is absent is \<open>undefined\<close>.\<close>

record FavoriteWeatherData =
  fw_id :: "string option"
  fw_city :: string
  fw_temperature :: jsval
  fw_conditions :: jsval
  fw_humidity :: jsval
  fw_windSpeed :: jsval
  fw_icon :: jsval
  fw_description :: jsval
  fw_weatherId :: jsval
  fw_lat :: jsval
  fw_lon :: jsval
  fw_country :: jsval
  fw_timezone :: jsval
  fw_sunrise :: jsval
  fw_sunset :: jsval

text \<open>The input of the \<open>UPSERT_ITEM\<close> mutation.\<close>

record upsert_input =
  in_id :: "string option"
  in_name :: string
  in_content :: string
  in_metadata :: string

text \<open>
  \<open>saveFavoriteCity\<close> builds the input, with the id only when \<open>weatherData.id\<close> is truthy,
  and sends the mutation; an error is logged and thrown again. The second component is
  the list of mutations sent.
\<close>

definition save_input :: "platform \<Rightarrow> FavoriteWeatherData \<Rightarrow> upsert_input" where
  "save_input P weatherData =
     \<lparr>in_id = (case fw_id weatherData of
                  None \<Rightarrow> None
                | Some i \<Rightarrow> if i \<noteq> [] then Some i else None),
      in_name = fw_city weatherData,
      in_content = JSON_stringify P (JObj
        [(''temperature'', fw_temperature weatherData),
         (''conditions'', fw_conditions weatherData),
         (''description'', fw_description weatherData)]),
      in_metadata = JSON_stringify P (JObj
        [(''temperature'', fw_temperature weatherData),
         (''conditions'', fw_conditions weatherData),
         (''humidity'', fw_humidity weatherData),
         (''windSpeed'', fw_windSpeed weatherData),
         (''icon'', fw_icon weatherData),
         (''description'', fw_description weatherData),
         (''weatherId'', fw_weatherId weatherData),
         (''lat'', fw_lat weatherData),
         (''lon'', fw_lon weatherData),
         (''country'', fw_country weatherData),
         (''timezone'', fw_timezone weatherData),
         (''sunrise'', fw_sunrise weatherData),
         (''sunset'', fw_sunset weatherData)])\<rparr>"

definition saveFavoriteCity ::
  "platform \<Rightarrow> (upsert_input \<Rightarrow> error + FavoriteItem) \<Rightarrow> FavoriteWeatherData \<Rightarrow>
   (error + FavoriteItem) \<times> upsert_input list" where
  "saveFavoriteCity P mutate weatherData =
     (let input = save_input P weatherData in (mutate input, [input]))"

text \<open>
  \<open>checkIfCityInFavorites\<close>. The body of the \<open>try\<close> in the callback of \<open>items.some\<close>
  either returns a value (\<open>Some\<close>) or runs to its end (\<open>None\<close>); after the \<open>catch\<close>
  (\<open>If we can't parse metadata, continue with the check\<close>) the callback returns \<open>true\<close>.
\<close>

definition isFavorite_try :: "platform \<Rightarrow> jsval \<Rightarrow> FavoriteItem \<Rightarrow> error + bool option" where
  "isFavorite_try P weatherId item =
     (case JSON_parse P (item_metadata item) of
        None \<Rightarrow> Inl SyntaxError
      | Some md \<Rightarrow>
          if item_content item = [] then Inr (Some False)
          else andThen (get_prop md ''deleted'') (\<lambda>d.
            if strict_eq d (JBool True) then Inr (Some False)
            else if truthy weatherId then
              andThen (get_prop md ''weatherId'') (\<lambda>w.
                if truthy w then (if \<not> strict_eq w weatherId then Inr (Some False) else Inr None)
                else Inr None)
            else Inr None))"

definition isFavorite_item :: "platform \<Rightarrow> string \<Rightarrow> jsval \<Rightarrow> FavoriteItem \<Rightarrow> bool" where
  "isFavorite_item P cityName weatherId item =
     (if toLowerCase P (item_name item) \<noteq> toLowerCase P cityName then False
      else (case isFavorite_try P weatherId item of
              Inl e \<Rightarrow> True
            | Inr (Some b) \<Rightarrow> b
            | Inr None \<Rightarrow> True))"

text \<open>
  The answer of the \<open>LIST_ITEMS\<close> query is \<open>Inl\<close> when the query rejects, else the list
  \<open>response.data.listItems || []\<close>. A query that rejects makes the function return
  \<open>false\<close>. \<open>weatherId\<close> is \<open>undefined\<close> when the caller leaves it out.
\<close>

definition checkIfCityInFavorites ::
  "platform \<Rightarrow> error + FavoriteItem list \<Rightarrow> string \<Rightarrow> jsval \<Rightarrow> bool" where
  "checkIfCityInFavorites P response cityName weatherId =
     (case response of
        Inl e \<Rightarrow> False
      | Inr items \<Rightarrow> list_ex (isFavorite_item P cityName weatherId) items)"

section \<open>FavoritesService: toggleFavorite\<close>

text \<open>
  The callback of \<open>items.filter\<close> in \<open>toggleFavorite\<close> has two \<open>try\<close> blocks. The first
  sets \<open>weatherIdMatches\<close> (\<open>If parsing fails, just rely on name matching\<close>); the second
  returns \<open>false\<close> for a deleted item (\<open>Continue with the check if parsing fails\<close>).
\<close>

definition weatherIdMatches :: "platform \<Rightarrow> WeatherData \<Rightarrow> FavoriteItem \<Rightarrow> bool" where
  "weatherIdMatches P weatherData item =
     (case JSON_parse P (item_metadata item) of
        None \<Rightarrow> False
      | Some md \<Rightarrow>
          if truthy (wd_weatherId weatherData) then
            (case get_prop md ''weatherId'' of
               Inl e \<Rightarrow> False
             | Inr w \<Rightarrow> if truthy w then strict_eq w (wd_weatherId weatherData) else False)
          else False)"

definition skip_deleted_try :: "platform \<Rightarrow> FavoriteItem \<Rightarrow> error + bool" where
  "skip_deleted_try P item =
     (case JSON_parse P (item_metadata item) of
        None \<Rightarrow> Inl SyntaxError
      | Some md \<Rightarrow>
          if item_content item = [] then Inr True
          else andThen (get_prop md ''deleted'') (\<lambda>d. Inr (strict_eq d (JBool True))))"

definition matchingItems_keep :: "platform \<Rightarrow> WeatherData \<Rightarrow> FavoriteItem \<Rightarrow> bool" where
  "matchingItems_keep P weatherData item =
     (let nameMatches = (toLowerCase P (item_name item) = toLowerCase P (wd_city weatherData));
          idMatches = weatherIdMatches P weatherData item
      in case skip_deleted_try P item of
           Inr True \<Rightarrow> False
         | Inr False \<Rightarrow> nameMatches \<or> idMatches
         | Inl e \<Rightarrow> nameMatches \<or> idMatches)"

definition matchingItems :: "platform \<Rightarrow> WeatherData \<Rightarrow> FavoriteItem list \<Rightarrow> FavoriteItem list" where
  "matchingItems P weatherData items = filter (matchingItems_keep P weatherData) items"

text \<open>The input that marks an item as deleted.\<close>

definition emptyInput :: "platform \<Rightarrow> int \<Rightarrow> WeatherData \<Rightarrow> FavoriteItem \<Rightarrow> upsert_input" where
  "emptyInput P now weatherData item =
     \<lparr>in_id = Some (item_id item),
      in_name = item_name item,
      in_content = [],
      in_metadata = JSON_stringify P (JObj
        [(''deleted'', JBool True),
         (''deletedAt'', JStr (toISOString P now)),
         (''originalWeatherId'', wd_weatherId weatherData),
         (''originalCityName'', JStr (wd_city weatherData))])\<rparr>"

definition convertToFavoriteData :: "WeatherData \<Rightarrow> FavoriteWeatherData" where
  "convertToFavoriteData weather =
     (let geo = (wd_lat weather \<noteq> JUndefined \<and> wd_lon weather \<noteq> JUndefined) in
      \<lparr>fw_id = None,
       fw_city = wd_city weather,
       fw_temperature = wd_temperature weather,
       fw_conditions = wd_conditions weather,
       fw_humidity = wd_humidity weather,
       fw_windSpeed = wd_windSpeed weather,
       fw_icon = wd_icon weather,
       fw_description = wd_description weather,
       fw_weatherId = wd_weatherId weather,
       fw_lat = (if geo then wd_lat weather else JUndefined),
       fw_lon = (if geo then wd_lon weather else JUndefined),
       fw_country = (if geo then js_or (wd_country weather) (JStr ''Unknown'') else JUndefined),
       fw_timezone = wd_timezone weather,
       fw_sunrise = wd_sunrise weather,
       fw_sunset = wd_sunset weather\<rparr>)"

text \<open>
  \<open>isCityInFavorites\<close> writes a line of log, which holds \<open>${weatherId}\<close> when the
  \<open>weatherId\<close> is truthy, and calls \<open>checkIfCityInFavorites\<close>; its \<open>catch\<close> returns
  \<open>false\<close>.
\<close>

definition isCityInFavorites ::
  "platform \<Rightarrow> error + FavoriteItem list \<Rightarrow> string \<Rightarrow> jsval \<Rightarrow> bool" where
  "isCityInFavorites P response cityName weatherId =
     (case (if truthy weatherId then ToString P weatherId else Inr []) of
        Inl e \<Rightarrow> False
      | Inr logged \<Rightarrow> checkIfCityInFavorites P response cityName weatherId)"

text \<open>
  \<open>toggleFavorite\<close>, with the answers of its two \<open>LIST_ITEMS\<close> queries (the first inside
  \<open>isCityInFavorites\<close>) and the mutation; the second component is the list of mutations
  sent. The \<open>catch\<close> inside the removal keeps a failed mutation from the count; the outer
  \<open>catch\<close> returns \<open>false\<close>.
\<close>

definition toggleFavorite_try ::
  "platform \<Rightarrow> int \<Rightarrow> error + FavoriteItem list \<Rightarrow> error + FavoriteItem list \<Rightarrow>
   (upsert_input \<Rightarrow> error + FavoriteItem) \<Rightarrow> WeatherData \<Rightarrow> (error + bool) \<times> upsert_input list" where
  "toggleFavorite_try P now checkResponse listResponse mutate weatherData =
     (if isCityInFavorites P checkResponse (wd_city weatherData) (wd_weatherId weatherData)
      then (case listResponse of
              Inl e \<Rightarrow> (Inl e, [])
            | Inr items \<Rightarrow>
                (let matching = matchingItems P weatherData items in
                 if length matching > 0 then
                   (let inputs = map (emptyInput P now weatherData) matching;
                        removedCount = length (filter (\<lambda>i. fulfils (mutate i)) inputs)
                    in (Inr (removedCount > 0), inputs))
                 else (Inr False, [])))
      else (case saveFavoriteCity P mutate (convertToFavoriteData weatherData) of
              (Inl e, sent) \<Rightarrow> (Inl e, sent)
            | (Inr saved, sent) \<Rightarrow> (Inr True, sent)))"

definition toggleFavorite ::
  "platform \<Rightarrow> int \<Rightarrow> error + FavoriteItem list \<Rightarrow> error + FavoriteItem list \<Rightarrow>
   (upsert_input \<Rightarrow> error + FavoriteItem) \<Rightarrow> WeatherData \<Rightarrow> bool \<times> upsert_input list" where
  "toggleFavorite P now checkResponse listResponse mutate weatherData =
     (case toggleFavorite_try P now checkResponse listResponse mutate weatherData of
        (Inl e, sent) \<Rightarrow> (False, sent)
      | (Inr b, sent) \<Rightarrow> (b, sent))"

section \<open>Overlapping calls of fetchWeatherFromApi\<close>

text \<open>
  The runtime runs one piece of code at a time: a call of an asynchronous function runs
  until its first \<open>await\<close>, and what follows the \<open>await\<close> runs later, after the awaited
  promise has settled, again without interruption. \<open>fetchWeatherFromApi\<close> has three such
  pieces, and other calls may run between them:
  \<^item> \<open>Call\<close>: the key, the test \<open>cityKey in activeRequests\<close> and either \<open>return
    activeRequests[cityKey]\<close>, or the line of log, the two \<open>fetch\<close> calls and the
    assignment of the new promise to \<open>activeRequests[cityKey]\<close>, up to \<open>await
    activeRequests[cityKey]\<close>;
  \<^item> \<open>Settle\<close>: the two answers arrive and the stored promise settles with
    \<open>request_outcome\<close>;
  \<^item> \<open>Resume\<close>: the call that stored the promise continues after its \<open>await\<close>, with
    \<open>delete activeRequests[cityKey]\<close> before \<open>return result\<close> and in the \<open>catch\<close>.
  Promises are numbered in the order of their creation; every promise created stands
  for one pair of HTTP requests, whose URLs hold the texts \<open>req_lat\<close> and \<open>req_lon\<close>.
  \<open>cs_awaiting\<close> lists the promises whose creating call is suspended at its \<open>await\<close>.
  Callers are numbered by whoever calls, and \<open>cs_returned\<close> maps a caller to what its call
  yields: \<open>Inr\<close> the promise found in \<open>activeRequests\<close> or created and awaited by the
  call, \<open>Inl\<close> the error of a call that threw before there was a promise.
\<close>

record request =
  req_key :: string
  req_city :: City
  req_lat :: string
  req_lon :: string
  req_value :: "(error + WeatherData) option"

record call_state =
  cs_activeRequests :: "string \<rightharpoonup> nat"
  cs_requests :: "request list"
  cs_awaiting :: "nat list"
  cs_returned :: "nat \<rightharpoonup> error + nat"

datatype action =
    Call nat City
  | Settle nat int "error + http_response" "error + http_response"
  | Resume nat

definition initial_calls :: call_state where
  "initial_calls =
     \<lparr>cs_activeRequests = Map.empty, cs_requests = [], cs_awaiting = [], cs_returned = Map.empty\<rparr>"

definition do_call :: "platform \<Rightarrow> nat \<Rightarrow> City \<Rightarrow> call_state \<Rightarrow> call_state" where
  "do_call P caller city s =
     (case cityKey P city of
        Inl e \<Rightarrow> s\<lparr>cs_returned := (cs_returned s)(caller \<mapsto> Inl e)\<rparr>
      | Inr key \<Rightarrow>
          (case cs_activeRequests s key of
             Some inFlight \<Rightarrow> s\<lparr>cs_returned := (cs_returned s)(caller \<mapsto> Inr inFlight)\<rparr>
           | None \<Rightarrow>
               (case coordinates_text P city of
                  Inl e \<Rightarrow> s\<lparr>cs_returned := (cs_returned s)(caller \<mapsto> Inl e)\<rparr>
                | Inr (lat, lon) \<Rightarrow>
                    (let n = length (cs_requests s) in
                     s\<lparr>cs_activeRequests := (cs_activeRequests s)(key \<mapsto> n),
                       cs_requests := cs_requests s @
                         [\<lparr>req_key = key, req_city = city, req_lat = lat, req_lon = lon,
                           req_value = None\<rparr>],
                       cs_awaiting := cs_awaiting s @ [n],
                       cs_returned := (cs_returned s)(caller \<mapsto> Inr n)\<rparr>))))"

definition do_settle ::
  "platform \<Rightarrow> nat \<Rightarrow> int \<Rightarrow> error + http_response \<Rightarrow> error + http_response \<Rightarrow>
   call_state \<Rightarrow> call_state" where
  "do_settle P n now weatherPromise forecastPromise s =
     (if n < length (cs_requests s) \<and> req_value (cs_requests s ! n) = None
      then (let r = cs_requests s ! n;
                v = request_outcome P now (req_city r) weatherPromise forecastPromise
            in s\<lparr>cs_requests := (cs_requests s)[n := r\<lparr>req_value := Some v\<rparr>]\<rparr>)
      else s)"

definition delete_active :: "call_state \<Rightarrow> nat \<Rightarrow> call_state" where
  "delete_active s n =
     s\<lparr>cs_activeRequests := (cs_activeRequests s)(req_key (cs_requests s ! n) := None),
       cs_awaiting := remove1 n (cs_awaiting s)\<rparr>"

text \<open>
  The call that awaits promise \<open>n\<close> continues once the promise has settled: on a value
  after the \<open>await\<close>, on an error in the \<open>catch\<close>.
\<close>

definition do_resume :: "nat \<Rightarrow> call_state \<Rightarrow> call_state" where
  "do_resume n s =
     (if n \<in> set (cs_awaiting s) \<and> n < length (cs_requests s)
      then (case req_value (cs_requests s ! n) of
              None \<Rightarrow> s
            | Some (Inr result) \<Rightarrow> delete_active s n
            | Some (Inl e) \<Rightarrow> delete_active s n)
      else s)"

fun step :: "platform \<Rightarrow> call_state \<Rightarrow> action \<Rightarrow> call_state" where
  "step P s (Call caller city) = do_call P caller city s"
| "step P s (Settle n now weatherPromise forecastPromise) =
     do_settle P n now weatherPromise forecastPromise s"
| "step P s (Resume n) = do_resume n s"

definition run :: "platform \<Rightarrow> action list \<Rightarrow> call_state" where
  "run P actions = foldl (step P) initial_calls actions"

text \<open>The requests for a key that have been sent and have not settled.\<close>

definition in_flight :: "call_state \<Rightarrow> string \<Rightarrow> request list" where
  "in_flight s key = filter (\<lambda>r. req_key r = key \<and> req_value r = None) (cs_requests s)"

text \<open>
  What a caller's call yields: the error of a call that threw, or the value of its
  promise once that has settled.
\<close>

definition received :: "call_state \<Rightarrow> nat \<Rightarrow> (error + WeatherData) option" where
  "received s caller =
     (case cs_returned s caller of
        None \<Rightarrow> None
      | Some (Inl e) \<Rightarrow> Some (Inl e)
      | Some (Inr n) \<Rightarrow> if n < length (cs_requests s) then req_value (cs_requests s ! n) else None)"

section \<open>FavoritesUpdateService: updateAllFavorites\<close>

text \<open>
  What \<open>updateAllFavorites\<close> calls: the \<open>LIST_ITEMS\<close> query (\<open>Inl\<close> when it rejects, else
  \<open>response.data.listItems || []\<close>), \<open>searchCities\<close>, \<open>fetchWeatherFromApi\<close> and the
  mutation behind \<open>saveFavoriteCity\<close>. The query, the search and the mutation are given by
  their answers as functions of what they are asked during the run, and \<open>network\<close> is the
  weather provider that \<open>fetchWeatherFromApi\<close> asks.

  The updates of one batch run concurrently, and their calls of \<open>fetchWeatherFromApi\<close>
  share \<open>activeRequests\<close>. An update whose favourite has coordinates in its metadata runs
  without a pause from its start into \<open>fetchWeatherFromApi\<close>, up to the \<open>await\<close> there; the
  others are suspended in \<open>getGeoDataForCity\<close> first. In which order the suspended pieces
  go on is up to the network, and \<open>schedule\<close> gives it for a batch:
  \<^item> \<open>Found i\<close>: the search for the favourite at index \<open>i\<close> of the batch has returned,
    and its update goes on, into \<open>fetchWeatherFromApi\<close> when it has a city;
  \<^item> \<open>Answered n\<close>: the answers to the requests of promise \<open>n\<close> arrive;
  \<^item> \<open>Continued n\<close>: the call that created promise \<open>n\<close> continues after its \<open>await\<close>.
  No other part of the application calls \<open>fetchWeatherFromApi\<close> during the run, and
  \<open>activeRequests\<close> is empty when a batch starts: when the join of the batch before has
  returned, every call of that batch has returned, the creating calls after deleting
  their keys.
\<close>

datatype happening = Found nat | Answered nat | Continued nat

record services =
  listItems :: "error + FavoriteItem list"
  search :: "string \<Rightarrow> City list"
  network :: net
  upsertItem :: "upsert_input \<Rightarrow> error + FavoriteItem"
  schedule :: "FavoriteItem list \<Rightarrow> happening list"

text \<open>
  The calls of one run are recorded in order. A call made while one favourite is updated
  carries that favourite. The updates of one batch run concurrently; the record lists
  them favourite by favourite, in the order of the batch.
\<close>

datatype effect = SearchCities string | FetchWeather City | UpsertItem upsert_input

datatype event = ListItems | Task FavoriteItem effect | Sleep nat

text \<open>
  \<open>getGeoDataForCity\<close> takes the first city found and writes its coordinates into a line
  of log; its \<open>catch\<close> returns \<open>null\<close>.
\<close>

definition getGeoDataForCity :: "services \<Rightarrow> platform \<Rightarrow> string \<Rightarrow> City option" where
  "getGeoDataForCity S P cityName =
     (case search S cityName of
        [] \<Rightarrow> None
      | first # rest \<Rightarrow>
          (case coordinates_text P first of Inl e \<Rightarrow> None | Inr logged \<Rightarrow> Some first))"

text \<open>
  The inner \<open>try\<close> that reads \<open>lat\<close>, \<open>lon\<close> and \<open>country\<close> from the metadata; a variable
  that is not assigned stays \<open>undefined\<close>, and an exception leaves the later ones so.
\<close>

definition metadata_geo :: "platform \<Rightarrow> FavoriteItem \<Rightarrow> jsval \<times> jsval \<times> jsval" where
  "metadata_geo P favorite =
     (case JSON_parse P (item_metadata favorite) of
        None \<Rightarrow> (JUndefined, JUndefined, JUndefined)
      | Some md \<Rightarrow>
          (case get_prop md ''lat'' of
             Inl e \<Rightarrow> (JUndefined, JUndefined, JUndefined)
           | Inr la \<Rightarrow>
               (let lat = (if truthy la then la else JUndefined) in
                case get_prop md ''lon'' of
                  Inl e \<Rightarrow> (lat, JUndefined, JUndefined)
                | Inr lo \<Rightarrow>
                    (let lon = (if truthy lo then lo else JUndefined) in
                     case get_prop md ''country'' of
                       Inl e \<Rightarrow> (lat, lon, JUndefined)
                     | Inr co \<Rightarrow> (lat, lon, if truthy co then co else JUndefined)))))"

definition city_for :: "FavoriteItem \<Rightarrow> jsval \<Rightarrow> jsval \<Rightarrow> jsval \<Rightarrow> City" where
  "city_for favorite lat lon country =
     \<lparr>city_name = item_name favorite,
      city_lat = lat,
      city_lon = lon,
      city_country = js_or country (JStr ''Unknown'')\<rparr>"

text \<open>\<open>!lat || !lon\<close> after the inner \<open>try\<close>: the update awaits \<open>getGeoDataForCity\<close>.\<close>

definition needs_search :: "platform \<Rightarrow> FavoriteItem \<Rightarrow> bool" where
  "needs_search P favorite =
     (case metadata_geo P favorite of (lat, lon, country) \<Rightarrow> \<not> truthy lat \<or> \<not> truthy lon)"

text \<open>
  The \<open>City\<close> object that an update builds for \<open>fetchWeatherFromApi\<close>; \<open>None\<close> when the
  search finds nothing and the update returns \<open>false\<close>. (The line of log that follows a
  successful search holds the two texts that \<open>getGeoDataForCity\<close> has logged already.)
\<close>

definition update_city :: "services \<Rightarrow> platform \<Rightarrow> FavoriteItem \<Rightarrow> City option" where
  "update_city S P favorite =
     (case metadata_geo P favorite of
        (lat, lon, country) \<Rightarrow>
          if \<not> truthy lat \<or> \<not> truthy lon then
            (case getGeoDataForCity S P (item_name favorite) of
               None \<Rightarrow> None
             | Some cityGeoData \<Rightarrow>
                 Some (city_for favorite (city_lat cityGeoData) (city_lon cityGeoData)
                         (city_country cityGeoData)))
          else Some (city_for favorite lat lon country))"

subsection \<open>The calls of a batch\<close>

text \<open>
  \<open>batch.map\<close> starts the updates in the order of the batch. Those that need no search
  make their calls of \<open>fetchWeatherFromApi\<close> then, one after the other, with the index of
  the favourite as the number of the caller.
\<close>

definition starts :: "services \<Rightarrow> platform \<Rightarrow> FavoriteItem list \<Rightarrow> action list" where
  "starts S P batch =
     concat (map (\<lambda>i. if needs_search P (batch ! i) then []
                       else (case update_city S P (batch ! i) of
                               None \<Rightarrow> []
                             | Some city \<Rightarrow> [Call i city]))
               [0..<length batch])"

text \<open>
  What an entry of the schedule does to the calls. A search returns once, for an update
  that has not called yet; the answers to a request are those of the provider for the
  texts in its URLs.
\<close>

fun happen ::
  "services \<Rightarrow> platform \<Rightarrow> FavoriteItem list \<Rightarrow> call_state \<Rightarrow> happening \<Rightarrow> call_state" where
  "happen S P batch s (Found i) =
     (if i < length batch \<and> cs_returned s i = None
      then (case update_city S P (batch ! i) of
              None \<Rightarrow> s
            | Some city \<Rightarrow> step P s (Call i city))
      else s)"
| "happen S P batch s (Answered n) =
     (if n < length (cs_requests s)
      then (let r = cs_requests s ! n in
            step P s (Settle n (net_now (network S))
                        (fetch_weather (network S) (req_lat r) (req_lon r))
                        (fetch_forecast (network S) (req_lat r) (req_lon r))))
      else s)"
| "happen S P batch s (Continued n) = step P s (Resume n)"

text \<open>
  The calls of a batch from its start to the return of its join: the calls made at the
  start, the schedule, and then what is still due, in a fixed order: the searches that
  have not returned, the answers that have not arrived, the creating calls that have not
  continued. Every order in which the runtime can run the pieces is the order of some
  schedule.
\<close>

definition run_batch :: "services \<Rightarrow> platform \<Rightarrow> FavoriteItem list \<Rightarrow> call_state" where
  "run_batch S P batch =
     (let started = foldl (step P) initial_calls (starts S P batch);
          scheduled = foldl (happen S P batch) started (schedule S batch);
          called = foldl (happen S P batch) scheduled (map Found [0..<length batch]);
          answered = foldl (happen S P batch) called
                       (map Answered [0..<length (cs_requests called)])
      in foldl (happen S P batch) answered (map Continued [0..<length (cs_requests called)]))"

subsection \<open>One update\<close>

text \<open>\<open>favoriteData\<close>: the fresh weather under the id of the existing item.\<close>

definition favoriteData_of :: "FavoriteItem \<Rightarrow> WeatherData \<Rightarrow> FavoriteWeatherData" where
  "favoriteData_of favorite weatherData =
     \<lparr>fw_id = Some (item_id favorite),
      fw_city = wd_city weatherData,
      fw_temperature = wd_temperature weatherData,
      fw_conditions = wd_conditions weatherData,
      fw_humidity = wd_humidity weatherData,
      fw_windSpeed = wd_windSpeed weatherData,
      fw_icon = wd_icon weatherData,
      fw_description = wd_description weatherData,
      fw_weatherId = wd_weatherId weatherData,
      fw_lat = wd_lat weatherData,
      fw_lon = wd_lon weatherData,
      fw_country = wd_country weatherData,
      fw_timezone = JUndefined,
      fw_sunrise = JUndefined,
      fw_sunset = JUndefined\<rparr>"

text \<open>
  From the \<open>City\<close> object to the end of the \<open>try\<close> of one update, with what the call of
  \<open>fetchWeatherFromApi\<close> yields. After \<open>run_batch\<close> every call has yielded a value or an
  error (lemma \<open>run_batch_received\<close> below); the case \<open>None\<close> is a call whose promise never
  settles.
\<close>

definition fetch_and_save ::
  "services \<Rightarrow> platform \<Rightarrow> FavoriteItem \<Rightarrow> City \<Rightarrow> (error + WeatherData) option \<Rightarrow>
   (error + bool) \<times> effect list" where
  "fetch_and_save S P favorite city fetched =
     (case fetched of
        None \<Rightarrow> (Inr False, [FetchWeather city])
      | Some (Inl e) \<Rightarrow> (Inl e, [FetchWeather city])
      | Some (Inr weatherData) \<Rightarrow>
          (case saveFavoriteCity P (upsertItem S) (favoriteData_of favorite weatherData) of
             (Inl e, sent) \<Rightarrow> (Inl e, FetchWeather city # map UpsertItem sent)
           | (Inr saved, sent) \<Rightarrow> (Inr True, FetchWeather city # map UpsertItem sent)))"

text \<open>
  The \<open>try\<close> of the function that updates one favourite, the one at index \<open>i\<close> of the
  batch, given the calls of the batch.
\<close>

definition update_try ::
  "services \<Rightarrow> platform \<Rightarrow> FavoriteItem list \<Rightarrow> call_state \<Rightarrow> nat \<Rightarrow>
   (error + bool) \<times> effect list" where
  "update_try S P batch s i =
     (let favorite = batch ! i in
      case metadata_geo P favorite of
        (lat, lon, country) \<Rightarrow>
          if \<not> truthy lat \<or> \<not> truthy lon then
            (case getGeoDataForCity S P (item_name favorite) of
               None \<Rightarrow> (Inr False, [SearchCities (item_name favorite)])
             | Some cityGeoData \<Rightarrow>
                 (case fetch_and_save S P favorite
                         (city_for favorite (city_lat cityGeoData) (city_lon cityGeoData)
                            (city_country cityGeoData))
                         (received s i) of
                    (r, effects) \<Rightarrow> (r, SearchCities (item_name favorite) # effects)))
          else fetch_and_save S P favorite (city_for favorite lat lon country) (received s i))"

text \<open>With its \<open>catch\<close>, which returns \<open>false\<close>: the function never rejects.\<close>

definition update_favorite ::
  "services \<Rightarrow> platform \<Rightarrow> FavoriteItem list \<Rightarrow> call_state \<Rightarrow> nat \<Rightarrow> bool \<times> effect list" where
  "update_favorite S P batch s i =
     (case update_try S P batch s i of
        (Inl e, effects) \<Rightarrow> (False, effects)
      | (Inr b, effects) \<Rightarrow> (b, effects))"

text \<open>An entry of the array that \<open>Promise.allSettled\<close> resolves to.\<close>

datatype settled = Fulfilled bool | Rejected error

definition settle_update ::
  "services \<Rightarrow> platform \<Rightarrow> FavoriteItem list \<Rightarrow> call_state \<Rightarrow> nat \<Rightarrow> settled" where
  "settle_update S P batch s i = Fulfilled (fst (update_favorite S P batch s i))"

text \<open>\<open>result.status === 'fulfilled' && result.value === true\<close>.\<close>

fun is_success :: "settled \<Rightarrow> bool" where
  "is_success (Fulfilled v) = v"
| "is_success (Rejected e) = False"

definition task_events ::
  "services \<Rightarrow> platform \<Rightarrow> FavoriteItem list \<Rightarrow> call_state \<Rightarrow> nat \<Rightarrow> event list" where
  "task_events S P batch s i = map (Task (batch ! i)) (snd (update_favorite S P batch s i))"

text \<open>The results of a batch and the calls of its updates.\<close>

definition batch_results :: "services \<Rightarrow> platform \<Rightarrow> FavoriteItem list \<Rightarrow> settled list" where
  "batch_results S P batch =
     map (settle_update S P batch (run_batch S P batch)) [0..<length batch]"

definition batch_events :: "services \<Rightarrow> platform \<Rightarrow> FavoriteItem list \<Rightarrow> event list" where
  "batch_events S P batch =
     concat (map (task_events S P batch (run_batch S P batch)) [0..<length batch])"

subsection \<open>The loop\<close>

definition batchSize :: nat where
  "batchSize = 3"

text \<open>\<open>favorites.slice(i, i + batchSize)\<close>.\<close>

definition slice :: "'a list \<Rightarrow> nat \<Rightarrow> nat \<Rightarrow> 'a list" where
  "slice xs i j = take (j - i) (drop i xs)"

text \<open>
  The \<open>for\<close> loop over the batches, from index \<open>i\<close> with the count and the record of
  calls so far.
\<close>

function batch_loop ::
  "services \<Rightarrow> platform \<Rightarrow> FavoriteItem list \<Rightarrow> nat \<Rightarrow> nat \<Rightarrow> event list \<Rightarrow> nat \<times> event list"
  where
  "batch_loop S P favorites i successCount trace =
     (if i < length favorites then
        (let batch = slice favorites i (i + batchSize);
             results = batch_results S P batch;
             successCount' = successCount + length (filter is_success results);
             trace' = trace @ batch_events S P batch
                        @ (if i + batchSize < length favorites then [Sleep 1000] else [])
         in batch_loop S P favorites (i + batchSize) successCount' trace')
      else (successCount, trace))"
  by pat_completeness auto
termination
  by (relation "measure (\<lambda>(S, P, favorites, i, successCount, trace). length favorites - i)")
     (auto simp: batchSize_def)

text \<open>The body of the \<open>try\<close> of \<open>updateAllFavorites\<close>.\<close>

definition updateAllFavorites_try :: "services \<Rightarrow> platform \<Rightarrow> (error + nat) \<times> event list" where
  "updateAllFavorites_try S P =
     (case listItems S of
        Inl e \<Rightarrow> (Inl e, [ListItems])
      | Inr allItems \<Rightarrow>
          (let favorites = favorites_of P allItems in
           if length favorites = 0 then (Inr 0, [ListItems])
           else (case batch_loop S P favorites 0 0 [ListItems] of
                   (successCount, trace) \<Rightarrow> (Inr successCount, trace))))"

text \<open>\<open>updateAllFavorites\<close>: the \<open>catch\<close> returns \<open>0\<close>.\<close>

definition updateAllFavorites :: "services \<Rightarrow> platform \<Rightarrow> (error + nat) \<times> event list" where
  "updateAllFavorites S P =
     (case updateAllFavorites_try S P of
        (Inl e, trace) \<Rightarrow> (Inr 0, trace)
      | (Inr n, trace) \<Rightarrow> (Inr n, trace))"

section \<open>Notions used to state the properties\<close>

subsection \<open>Absent records\<close>

text \<open>
  \<open>metadata.deleted === true\<close> for the metadata of an item, and a metadata string that
  \<open>JSON.parse\<close> rejects. The specification calls a record logically absent when its
  content is empty, when its metadata says deleted, or when its metadata does not parse.
  A record is soft-deleted when its metadata parses and one of the first two holds.
\<close>

definition metadata_deleted :: "platform \<Rightarrow> FavoriteItem \<Rightarrow> bool" where
  "metadata_deleted P item =
     (case JSON_parse P (item_metadata item) of
        None \<Rightarrow> False
      | Some md \<Rightarrow> get_prop md ''deleted'' = Inr (JBool True))"

definition parse_fails :: "platform \<Rightarrow> FavoriteItem \<Rightarrow> bool" where
  "parse_fails P item = (JSON_parse P (item_metadata item) = None)"

definition logically_absent :: "platform \<Rightarrow> FavoriteItem \<Rightarrow> bool" where
  "logically_absent P item =
     (item_content item = [] \<or> metadata_deleted P item \<or> parse_fails P item)"

definition soft_deleted :: "platform \<Rightarrow> FavoriteItem \<Rightarrow> bool" where
  "soft_deleted P item =
     (\<not> parse_fails P item \<and> (item_content item = [] \<or> metadata_deleted P item))"

definition present :: "platform \<Rightarrow> FavoriteItem list \<Rightarrow> FavoriteItem list" where
  "present P items = filter (\<lambda>item. \<not> logically_absent P item) items"

definition not_soft_deleted :: "platform \<Rightarrow> FavoriteItem list \<Rightarrow> FavoriteItem list" where
  "not_soft_deleted P items = filter (\<lambda>item. \<not> soft_deleted P item) items"

subsection \<open>The map of the deduplication\<close>

text \<open>
  What holds of \<open>cityMap\<close> after the items \<open>items\<close> have been filed: keys are distinct;
  an entry is one of the items, sits under its own key, and no item of that key is newer
  than it under the comparison of the code; every item has an entry under its key.
\<close>

definition cityMap_inv ::
  "platform \<Rightarrow> FavoriteItem list \<Rightarrow> (string \<times> FavoriteItem) list \<Rightarrow> bool" where
  "cityMap_inv P items m \<longleftrightarrow>
     distinct (map fst m) \<and>
     (\<forall>k v. map_of m k = Some v \<longrightarrow>
        v \<in> set items \<and> item_key P v = k \<and>
        (\<forall>x\<in>set items. item_key P x = k \<longrightarrow> \<not> date_gt P (item_updatedAt x) (item_updatedAt v))) \<and>
     (\<forall>x\<in>set items. map_of m (item_key P x) \<noteq> None)"

subsection \<open>Batches and the record of calls\<close>

text \<open>A list cut into pieces of three, the last one holding what is left.\<close>

fun chop3 :: "'a list \<Rightarrow> 'a list list" where
  "chop3 [] = []"
| "chop3 (x # xs) = take 3 (x # xs) # chop3 (drop 3 (x # xs))"

text \<open>
  The calls of the batches in order, with a pause of 1000 ms after every batch but the
  last; \<open>calls\<close> gives the calls of one batch.
\<close>

fun batch_trace :: "(FavoriteItem list \<Rightarrow> event list) \<Rightarrow> FavoriteItem list list \<Rightarrow> event list"
  where
  "batch_trace calls [] = []"
| "batch_trace calls [b] = calls b"
| "batch_trace calls (b # b' # bs) = calls b @ [Sleep 1000] @ batch_trace calls (b' # bs)"

text \<open>The key of the favourite for which a weather fetch was made.\<close>

fun fetch_key :: "platform \<Rightarrow> event \<Rightarrow> string option" where
  "fetch_key P (Task favorite (FetchWeather city)) = Some (item_key P favorite)"
| "fetch_key P e = None"

definition fetches_for :: "platform \<Rightarrow> string \<Rightarrow> event list \<Rightarrow> event list" where
  "fetches_for P key trace = filter (\<lambda>e. fetch_key P e = Some key) trace"

fun is_fetch :: "effect \<Rightarrow> bool" where
  "is_fetch (FetchWeather c) = True"
| "is_fetch e = False"

fun is_upsert :: "event \<Rightarrow> bool" where
  "is_upsert (Task favorite (UpsertItem input)) = True"
| "is_upsert e = False"

text \<open>The favourites that the calls of a record belong to.\<close>

fun task_item :: "event \<Rightarrow> FavoriteItem list" where
  "task_item (Task favorite e) = [favorite]"
| "task_item e = []"

definition touched :: "event list \<Rightarrow> FavoriteItem list" where
  "touched trace = concat (map task_item trace)"

text \<open>
  The three stages of one update in the words of the specification. Geo resolution: the
  city is taken from the metadata when it holds a latitude and a longitude, else from
  the first result of the search, if that has coordinates that can be written out.
  Fresh weather fetch: \<open>own_fetch\<close> is what \<open>fetchWeatherFromApi\<close> yields for the city
  when no request is in flight. Upsert: the mutation with the rebuilt content and the id
  of the record is accepted.
\<close>

definition geo_resolution :: "services \<Rightarrow> platform \<Rightarrow> FavoriteItem \<Rightarrow> City option" where
  "geo_resolution S P favorite =
     (case metadata_geo P favorite of
        (lat, lon, country) \<Rightarrow>
          if truthy lat \<and> truthy lon then Some (city_for favorite lat lon country)
          else (case search S (item_name favorite) of
                  [] \<Rightarrow> None
                | g # rest \<Rightarrow>
                    if fulfils (coordinates_text P g)
                    then Some (city_for favorite (city_lat g) (city_lon g) (city_country g))
                    else None))"

definition own_fetch :: "services \<Rightarrow> platform \<Rightarrow> City \<Rightarrow> error + WeatherData" where
  "own_fetch S P city = fst (fetchWeatherFromApi P (network S) Map.empty city)"

text \<open>
  An update succeeds with what its call of \<open>fetchWeatherFromApi\<close> yields when there is a
  city, the call yields a snapshot, and the mutation is accepted.
\<close>

definition succeeds_with ::
  "services \<Rightarrow> platform \<Rightarrow> FavoriteItem \<Rightarrow> (error + WeatherData) option \<Rightarrow> bool" where
  "succeeds_with S P favorite fetched =
     (case geo_resolution S P favorite of
        None \<Rightarrow> False
      | Some city \<Rightarrow>
          (case fetched of
             Some (Inr weatherData) \<Rightarrow>
               fulfils (upsertItem S (save_input P (favoriteData_of favorite weatherData)))
           | other \<Rightarrow> False))"

definition pipeline_succeeds :: "services \<Rightarrow> platform \<Rightarrow> FavoriteItem \<Rightarrow> bool" where
  "pipeline_succeeds S P favorite =
     (case geo_resolution S P favorite of
        None \<Rightarrow> False
      | Some city \<Rightarrow>
          (case own_fetch S P city of
             Inl e \<Rightarrow> False
           | Inr weatherData \<Rightarrow>
               fulfils (upsertItem S (save_input P (favoriteData_of favorite weatherData)))))"

text \<open>
  The calls of one update up to and with its call of \<open>fetchWeatherFromApi\<close>, and all
  its calls when its fetch is served by a request of its own.
\<close>

definition attempt :: "services \<Rightarrow> platform \<Rightarrow> FavoriteItem \<Rightarrow> event list" where
  "attempt S P favorite =
     (case metadata_geo P favorite of
        (lat, lon, country) \<Rightarrow>
          if truthy lat \<and> truthy lon then []
          else [Task favorite (SearchCities (item_name favorite))]) @
     (case geo_resolution S P favorite of
        None \<Rightarrow> []
      | Some city \<Rightarrow> [Task favorite (FetchWeather city)])"

definition own_update :: "services \<Rightarrow> platform \<Rightarrow> FavoriteItem \<Rightarrow> event list" where
  "own_update S P favorite =
     attempt S P favorite @
     (case geo_resolution S P favorite of
        None \<Rightarrow> []
      | Some city \<Rightarrow>
          (case own_fetch S P city of
             Inl e \<Rightarrow> []
           | Inr weatherData \<Rightarrow>
               [Task favorite (UpsertItem (save_input P (favoriteData_of favorite weatherData)))]))"

text \<open>
  What the call of \<open>fetchWeatherFromApi\<close> of the update at index \<open>i\<close> of a batch yields.
\<close>

definition obtained ::
  "services \<Rightarrow> platform \<Rightarrow> FavoriteItem list \<Rightarrow> nat \<Rightarrow> (error + WeatherData) option" where
  "obtained S P batch i = received (run_batch S P batch) i"

text \<open>
  The cache key of the city of a favourite, when it has a city with a key, and a batch
  in which no two favourites have the same cache key.
\<close>

definition own_key :: "services \<Rightarrow> platform \<Rightarrow> FavoriteItem \<Rightarrow> string option" where
  "own_key S P favorite =
     (case geo_resolution S P favorite of
        None \<Rightarrow> None
      | Some city \<Rightarrow> (case cityKey P city of Inl e \<Rightarrow> None | Inr key \<Rightarrow> Some key))"

definition keys_apart :: "services \<Rightarrow> platform \<Rightarrow> FavoriteItem list \<Rightarrow> bool" where
  "keys_apart S P batch \<longleftrightarrow>
     (\<forall>f\<in>set batch. \<forall>g\<in>set batch.
        own_key S P f \<noteq> None \<and> own_key S P g = own_key S P f \<longrightarrow> g = f)"

subsection \<open>The cache after an eviction\<close>

text \<open>The state that \<open>clearCityWeatherCache\<close> leaves when it returns.\<close>

definition evicted :: "platform \<Rightarrow> service_state \<Rightarrow> City \<Rightarrow> service_state" where
  "evicted P st city =
     (case clearCityWeatherCache P st city of Inl e \<Rightarrow> st | Inr st1 \<Rightarrow> st1)"

subsection \<open>The queue of pending requests\<close>

text \<open>
  The queue as \<open>storePendingRequest\<close> reads it, and equality of two cities in name and
  country.
\<close>

definition queue :: "service_state \<Rightarrow> City list" where
  "queue st = (case weather_pending_requests st of None \<Rightarrow> [] | Some cs \<Rightarrow> cs)"

definition same_city :: "City \<Rightarrow> City \<Rightarrow> bool" where
  "same_city a b = (city_name b = city_name a \<and> city_country b = city_country a)"

subsection \<open>States of overlapping calls\<close>

text \<open>
  What holds in every state that calls, answers and continuations can lead to: a key of
  \<open>activeRequests\<close> maps to a promise created for that key; a promise that has not
  settled, and a promise whose creating call is still suspended, is the one stored under
  its key; no promise is awaited twice.
\<close>

definition calls_inv :: "call_state \<Rightarrow> bool" where
  "calls_inv s \<longleftrightarrow>
     (\<forall>key n. cs_activeRequests s key = Some n \<longrightarrow>
        n < length (cs_requests s) \<and> req_key (cs_requests s ! n) = key) \<and>
     (\<forall>n < length (cs_requests s). req_value (cs_requests s ! n) = None \<longrightarrow>
        cs_activeRequests s (req_key (cs_requests s ! n)) = Some n) \<and>
     (\<forall>n \<in> set (cs_awaiting s). n < length (cs_requests s) \<and>
        cs_activeRequests s (req_key (cs_requests s ! n)) = Some n) \<and>
     distinct (cs_awaiting s)"

text \<open>
  What holds of the calls of a batch at every moment. Every request was sent for the
  city of an update of the batch, under the key and with the coordinates of that city,
  and has settled, if it has, with what a call for that city yields when no request is
  in flight. Every caller is an update of the batch with a city; what its call has
  yielded is the error that its own call yields when no request is in flight, or a
  promise sent under the key of its city.
\<close>

definition request_ok :: "services \<Rightarrow> platform \<Rightarrow> FavoriteItem list \<Rightarrow> request \<Rightarrow> bool" where
  "request_ok S P batch r \<longleftrightarrow>
     (\<exists>j < length batch. update_city S P (batch ! j) = Some (req_city r)) \<and>
     cityKey P (req_city r) = Inr (req_key r) \<and>
     coordinates_text P (req_city r) = Inr (req_lat r, req_lon r) \<and>
     (\<forall>v. req_value r = Some v \<longrightarrow> v = own_fetch S P (req_city r))"

definition batch_inv :: "services \<Rightarrow> platform \<Rightarrow> FavoriteItem list \<Rightarrow> call_state \<Rightarrow> bool" where
  "batch_inv S P batch s \<longleftrightarrow>
     (\<forall>r\<in>set (cs_requests s). request_ok S P batch r) \<and>
     (\<forall>i e. cs_returned s i = Some (Inl e) \<longrightarrow>
        i < length batch \<and>
        (\<exists>city. update_city S P (batch ! i) = Some city \<and> own_fetch S P city = Inl e)) \<and>
     (\<forall>i n. cs_returned s i = Some (Inr n) \<longrightarrow>
        i < length batch \<and> n < length (cs_requests s) \<and>
        (\<exists>city. update_city S P (batch ! i) = Some city \<and>
                cityKey P city = Inr (req_key (cs_requests s ! n))))"

text \<open>A promise that has settled, and a caller whose call has yielded something.\<close>

definition has_settled :: "call_state \<Rightarrow> nat \<Rightarrow> bool" where
  "has_settled s n \<longleftrightarrow> n < length (cs_requests s) \<and> req_value (cs_requests s ! n) \<noteq> None"

definition has_called :: "call_state \<Rightarrow> nat \<Rightarrow> bool" where
  "has_called s i \<longleftrightarrow> cs_returned s i \<noteq> None"

text \<open>Actions among which no call is made.\<close>

fun is_call :: "action \<Rightarrow> bool" where
  "is_call (Call caller city) = True"
| "is_call a = False"

definition no_calls :: "action list \<Rightarrow> bool" where
  "no_calls actions = (\<not> list_ex is_call actions)"

text \<open>Actions among which a given caller makes no call.\<close>

fun is_call_by :: "nat \<Rightarrow> action \<Rightarrow> bool" where
  "is_call_by c (Call caller city) = (caller = c)"
| "is_call_by c a = False"

definition no_calls_by :: "nat \<Rightarrow> action list \<Rightarrow> bool" where
  "no_calls_by c actions = (\<not> list_ex (is_call_by c) actions)"

text \<open>The requests that have been sent for a key.\<close>

definition sent_for :: "call_state \<Rightarrow> string \<Rightarrow> request list" where
  "sent_for s key = filter (\<lambda>r. req_key r = key) (cs_requests s)"

section \<open>Example data\<close>

text \<open>
  A small runtime and a few records on which the properties are run. The parser knows
  nine metadata strings and rejects every other one; the numbers that occur have their
  decimal texts.
\<close>

definition example_parse :: "string \<Rightarrow> jsval option" where
  "example_parse text = map_of
     [(''paris'', JObj [(''weatherId'', JNum 10), (''lat'', JNum 48), (''lon'', JNum 2),
                        (''country'', JStr ''FR'')]),
      (''far'', JObj [(''weatherId'', JNum 10), (''lat'', JNum 99), (''lon'', JNum 99),
                      (''country'', JStr ''FR'')]),
      (''plain'', JObj [(''weatherId'', JNum 10)]),
      (''bare'', JObj []),
      (''deleted'', JObj [(''deleted'', JBool True), (''weatherId'', JNum 10)]),
      (''odd 1'', JObj [(''weatherId'', JObj [(''toString'', JNum 1)])]),
      (''odd 2'', JObj [(''weatherId'', JObj [(''toString'', JNum 2)])]),
      (''illinois'', JObj [(''weatherId'', JNum 1), (''lat'', JNum 99), (''lon'', JNum 89),
                           (''country'', JStr ''US'')]),
      (''massachusetts'', JObj [(''weatherId'', JNum 2), (''lat'', JNum 42), (''lon'', JNum 72),
                                (''country'', JStr ''US'')])] text"

definition example_date :: "string \<Rightarrow> int option" where
  "example_date text = map_of [(''T1'', 1), (''T2'', 2), (''T3'', 3)] text"

definition example_number :: "real \<Rightarrow> string" where
  "example_number n =
     (if n = 0 then ''0'' else if n = 1 then ''1'' else if n = 2 then ''2''
      else if n = 4 then ''4'' else if n = 6 then ''6'' else if n = 10 then ''10''
      else if n = 39 then ''39'' else if n = 42 then ''42'' else if n = 45 then ''45''
      else if n = 48 then ''48'' else if n = 49 then ''49'' else if n = 72 then ''72''
      else if n = 89 then ''89'' else if n = 99 then ''99''
      else if n = - 72 then ''-72'' else if n = - 89 then ''-89'' else ''7'')"

definition example_lower :: "string \<Rightarrow> string" where
  "example_lower text =
     map (\<lambda>c. if c = CHR ''P'' then CHR ''p'' else if c = CHR ''S'' then CHR ''s'' else c) text"

definition example_platform :: platform where
  "example_platform =
     \<lparr>JSON_parse = example_parse,
      JSON_stringify = (\<lambda>v. ''json''),
      Date_parse = example_date,
      Number_toString = example_number,
      toLowerCase = example_lower,
      Math_round = (\<lambda>v. Inr v),
      toISOString = (\<lambda>t. ''now''),
      weekday_short = (\<lambda>dt. Inr ''Mon'')\<rparr>"

definition example_item :: "string \<Rightarrow> string \<Rightarrow> string \<Rightarrow> string \<Rightarrow> string \<Rightarrow> FavoriteItem" where
  "example_item i n c m u =
     \<lparr>item_id = i, item_name = n, item_content = c, item_metadata = m,
      item_createdAt = ''T1'', item_updatedAt = u\<rparr>"

text \<open>
  The records of \<open>scenario\<close>, a list that the specification describes: Paris twice,
  updated at \<open>T1\<close> and at \<open>T2\<close>, and a deleted Paris updated at \<open>T3\<close>.
\<close>

definition paris_T1 :: FavoriteItem where
  "paris_T1 = example_item ''a'' ''Paris'' ''sunny'' ''paris'' ''T1''"

definition paris_T2 :: FavoriteItem where
  "paris_T2 = example_item ''b'' ''Paris'' ''sunny'' ''paris'' ''T2''"

definition paris_T3 :: FavoriteItem where
  "paris_T3 = example_item ''c'' ''Paris'' [] ''deleted'' ''T3''"

text \<open>A Paris whose metadata is not JSON.\<close>

definition paris_broken :: FavoriteItem where
  "paris_broken = example_item ''d'' ''Paris'' ''sunny'' ''not json'' ''T1''"







text \<open>The mutation that saves a record under an id with the texts of the example runtime.\<close>

definition saved_as :: "string \<Rightarrow> string \<Rightarrow> effect" where
  "saved_as i n =
     UpsertItem \<lparr>in_id = Some i, in_name = n, in_content = ''json'', in_metadata = ''json''\<rparr>"



text \<open>
  Two records named Paris whose \<open>weatherId\<close> are objects with a property \<open>toString\<close>, and
  a Paris whose \<open>updatedAt\<close> is no date.
\<close>

definition odd_1 :: FavoriteItem where
  "odd_1 = example_item ''e'' ''Paris'' ''sunny'' ''odd 1'' ''T1''"

definition odd_2 :: FavoriteItem where
  "odd_2 = example_item ''f'' ''Paris'' ''sunny'' ''odd 2'' ''T1''"

definition paris_undated :: FavoriteItem where
  "paris_undated = example_item ''g'' ''Paris'' ''sunny'' ''paris'' ''A0''"

text \<open>A Paris without a \<open>weatherId\<close>.\<close>

definition paris_bare :: FavoriteItem where
  "paris_bare = example_item ''h'' ''Paris'' ''sunny'' ''bare'' ''T1''"

text \<open>Answers of the weather provider.\<close>

definition example_current :: jsval where
  "example_current = JObj
     [(''main'', JObj [(''temp'', JNum 20), (''humidity'', JNum 50)]),
      (''weather'', JArr [JObj [(''main'', JStr ''Clear''), (''icon'', JStr ''01d''),
                                (''description'', JStr ''clear sky'')]]),
      (''wind'', JObj [(''speed'', JNum 3)]),
      (''id'', JNum 10),
      (''timezone'', JNum 3600),
      (''sys'', JObj [(''sunrise'', JNum 1), (''sunset'', JNum 2)])]"

definition example_forecast :: jsval where
  "example_forecast = JObj
     [(''list'', JArr [JObj [(''dt'', JNum 5), (''main'', JObj [(''temp'', JNum 21)]),
                             (''weather'', JArr [JObj [(''icon'', JStr ''02d'')]])]])]"

definition example_net :: net where
  "example_net =
     \<lparr>net_networkState = Inr (True, True),
      net_now = 5000,
      fetch_weather = (\<lambda>lat lon.
        if lat = ''99'' then Inr \<lparr>resp_ok = False, resp_status = 404, resp_json = None\<rparr>
        else Inr \<lparr>resp_ok = True, resp_status = 200, resp_json = Some example_current\<rparr>),
      fetch_forecast = (\<lambda>lat lon.
        Inr \<lparr>resp_ok = True, resp_status = 200, resp_json = Some example_forecast\<rparr>)\<rparr>"

text \<open>A network on which every \<open>fetch\<close> rejects, and a device that is offline.\<close>

definition failing_net :: net where
  "failing_net =
     \<lparr>net_networkState = Inr (True, True),
      net_now = 5000,
      fetch_weather = (\<lambda>lat lon. Inl NetworkError),
      fetch_forecast = (\<lambda>lat lon. Inl NetworkError)\<rparr>"

definition offline_net :: net where
  "offline_net =
     \<lparr>net_networkState = Inr (False, False),
      net_now = 5000,
      fetch_weather = (\<lambda>lat lon. Inl NetworkError),
      fetch_forecast = (\<lambda>lat lon. Inl NetworkError)\<rparr>"

definition empty_state :: service_state where
  "empty_state =
     \<lparr>weather_data = Map.empty, weather_last_fetch = Map.empty,
      weather_pending_requests = None, activeRequests = Map.empty\<rparr>"

definition paris :: City where
  "paris = \<lparr>city_name = ''Paris'', city_lat = JNum 48, city_lon = JNum 2, city_country = JStr ''FR''\<rparr>"

definition lyon :: City where
  "lyon = \<lparr>city_name = ''Lyon'', city_lat = JNum 45, city_lon = JNum 4, city_country = JStr ''FR''\<rparr>"

text \<open>A city with numbers for coordinates and a text for its country.\<close>

definition example_city :: "string \<Rightarrow> real \<Rightarrow> real \<Rightarrow> string \<Rightarrow> City" where
  "example_city n la lo co =
     \<lparr>city_name = n, city_lat = JNum la, city_lon = JNum lo, city_country = JStr co\<rparr>"

text \<open>A city whose country is an object without a text.\<close>

definition nowhere :: City where
  "nowhere =
     \<lparr>city_name = ''Nowhere'', city_lat = JNum 48, city_lon = JNum 2,
      city_country = JObj [(''toString'', JNum 1)]\<rparr>"

text \<open>The snapshot that the example provider's answers make for a city.\<close>

definition example_snapshot :: "City \<Rightarrow> WeatherData" where
  "example_snapshot city =
     \<lparr>wd_city = city_name city,
      wd_temperature = JNum 20,
      wd_conditions = JStr ''Clear'',
      wd_humidity = JNum 50,
      wd_windSpeed = JNum 3,
      wd_icon = JStr ''01d'',
      wd_description = JStr ''clear sky'',
      wd_weatherId = JNum 10,
      wd_lastUpdated = ''now'',
      wd_forecast = [\<lparr>fc_date = ''Mon'', fc_temperature = JNum 21, fc_icon = JStr ''02d''\<rparr>],
      wd_lat = city_lat city,
      wd_lon = city_lon city,
      wd_country = city_country city,
      wd_timezone = JNum 3600,
      wd_sunrise = JNum 1,
      wd_sunset = JNum 2\<rparr>"

text \<open>
  A remote store that answers the list query with \<open>response\<close> and accepts every
  mutation, a search that finds Metz and nothing else, the weather of the example
  provider, and a schedule \<open>order\<close> for every batch.
\<close>

definition metz :: City where
  "metz = \<lparr>city_name = ''Metz'', city_lat = JNum 49, city_lon = JNum 6, city_country = JStr ''FR''\<rparr>"

definition example_services :: "error + FavoriteItem list \<Rightarrow> happening list \<Rightarrow> services" where
  "example_services response order =
     \<lparr>listItems = response,
      search = (\<lambda>q. if q = ''metz'' then [metz] else []),
      network = example_net,
      upsertItem = (\<lambda>input. Inr (example_item ''saved'' (in_name input) (in_content input)
                                      (in_metadata input) ''T3'')),
      schedule = (\<lambda>batch. order)\<rparr>"

definition scenario :: "FavoriteItem list" where
  "scenario = [paris_T1, paris_T2, paris_T3]"

text \<open>A state with a snapshot of Paris and no time of fetch.\<close>

definition cached_state :: service_state where
  "cached_state = empty_state\<lparr>weather_data := [''Paris-FR'' \<mapsto> example_snapshot paris]\<rparr>"

text \<open>Two cities of one name in one country.\<close>

definition springfield_il :: City where
  "springfield_il =
     \<lparr>city_name = ''Springfield'', city_lat = JNum 39, city_lon = JNum (-89),
      city_country = JStr ''US''\<rparr>"

definition springfield_ma :: City where
  "springfield_ma =
     \<lparr>city_name = ''Springfield'', city_lat = JNum 42, city_lon = JNum (-72),
      city_country = JStr ''US''\<rparr>"

text \<open>
  A device that is offline with Paris among its recent searches, and one that is online
  and gets \<open>answer\<close> from the geocoding endpoint.
\<close>

definition geo_offline :: geo_world where
  "geo_offline =
     \<lparr>geo_networkState = Inr (False, False),
      recent_city_searches = Some [paris],
      geo_fetch = (\<lambda>q. Inl NetworkError)\<rparr>"

definition geo_answers :: "error + geo_response \<Rightarrow> geo_world" where
  "geo_answers answer =
     \<lparr>geo_networkState = Inr (True, True),
      recent_city_searches = Some [paris],
      geo_fetch = (\<lambda>q. answer)\<rparr>"

text \<open>The two answers of the example provider, and a request that they settle.\<close>

definition ok_weather :: "error + http_response" where
  "ok_weather = Inr \<lparr>resp_ok = True, resp_status = 200, resp_json = Some example_current\<rparr>"

definition ok_forecast :: "error + http_response" where
  "ok_forecast = Inr \<lparr>resp_ok = True, resp_status = 200, resp_json = Some example_forecast\<rparr>"

section \<open>Properties\<close>

subsection \<open>The example data, evaluated\<close>

lemma example_platform_fields:
  "JSON_parse example_platform = example_parse"
  "JSON_stringify example_platform = (\<lambda>v. ''json'')"
  "Date_parse example_platform = example_date"
  "Number_toString example_platform = example_number"
  "toLowerCase example_platform = example_lower"
  "Math_round example_platform = (\<lambda>v. Inr v)"
  "toISOString example_platform = (\<lambda>t. ''now'')"
  "weekday_short example_platform = (\<lambda>dt. Inr ''Mon'')"
  by (simp_all add: example_platform_def)

lemmas example_defs =
  example_platform_fields example_parse_def example_date_def example_number_def example_lower_def
  example_item_def paris_T1_def paris_T2_def paris_T3_def paris_broken_def

lemma ex_valid: "validItems example_platform scenario = [paris_T1, paris_T2]"
  by (simp add: scenario_def validItems_def validItems_keep_def validItems_try_def example_defs)

lemma ex_key: "item_key example_platform paris_T2 = ''paris-10''"
  by (simp add: item_key_def composite_key_def js_or_def andThen_def example_defs)

lemma ex_favs: "favorites_of example_platform scenario = [paris_T2]"
  by (simp add: favorites_of_def ex_valid build_cityMap_def cityMap_step_def item_key_def
        composite_key_def js_or_def andThen_def date_gt_def example_defs)

lemma example_net_fields:
  "net_networkState example_net = Inr (True, True)"
  "net_now example_net = 5000"
  "fetch_weather example_net lat lon =
     (if lat = ''99'' then Inr \<lparr>resp_ok = False, resp_status = 404, resp_json = None\<rparr>
      else Inr \<lparr>resp_ok = True, resp_status = 200, resp_json = Some example_current\<rparr>)"
  "fetch_forecast example_net lat lon =
     Inr \<lparr>resp_ok = True, resp_status = 200, resp_json = Some example_forecast\<rparr>"
  by (simp_all add: example_net_def)

lemma example_services_fields:
  "listItems (example_services response order) = response"
  "search (example_services response order) q = (if q = ''metz'' then [metz] else [])"
  "network (example_services response order) = example_net"
  "upsertItem (example_services response order) input =
     Inr (example_item ''saved'' (in_name input) (in_content input) (in_metadata input) ''T3'')"
  "schedule (example_services response order) batch = order"
  by (simp_all add: example_services_def)

lemma example_forecast_value:
  "processedForecast example_platform example_forecast =
     Inr [\<lparr>fc_date = ''Mon'', fc_temperature = JNum 21, fc_icon = JStr ''02d''\<rparr>]"
  by (simp add: processedForecast_def example_forecast_def andThen_def every_8th_def
        forecast_item_def example_platform_fields)

lemma example_request:
  "lat \<noteq> ''99'' \<Longrightarrow>
   request_outcome example_platform 5000 city
     (fetch_weather example_net lat lon) (fetch_forecast example_net lat lon) =
   Inr (example_snapshot city)"
  by (simp add: request_outcome_def example_net_fields andThen_def example_forecast_value
        build_result_def example_current_def example_snapshot_def example_platform_fields)

lemma example_request_404:
  "request_outcome example_platform 5000 city
     (fetch_weather example_net ''99'' lon) (fetch_forecast example_net ''99'' lon) =
   Inl (ApiStatus 404)"
  by (simp add: request_outcome_def example_net_fields andThen_def)

lemma paris_key: "cityKey example_platform paris = Inr ''Paris-FR''"
  by (simp add: cityKey_def paris_def andThen_def)

lemma paris_text: "coordinates_text example_platform paris = Inr (''48'', ''2'')"
  by (simp add: coordinates_text_def paris_def andThen_def example_platform_fields
        example_number_def)

subsection \<open>The age of a cache entry\<close>

text \<open>
  Claim C4, as the code has it. \<open>getWeatherData\<close> takes a cache entry for expired when
  its time is missing or \<open>0\<close>, when it is older than one hour (\<open>now - t > 3600000\<close>), and
  on a forced refresh; an entry with a time other than \<open>0\<close> whose age is at most one
  hour, the age of exactly one hour included, is fresh when no refresh is forced.
\<close>

theorem cache_expiry:
  "(lastFetchTime key = None \<longrightarrow> isCacheExpired lastFetchTime key now forceRefresh) \<and>
   (lastFetchTime key = Some 0 \<longrightarrow> isCacheExpired lastFetchTime key now forceRefresh) \<and>
   (lastFetchTime key = Some t \<and> now - t > 3600000 \<longrightarrow>
      isCacheExpired lastFetchTime key now forceRefresh) \<and>
   (lastFetchTime key = Some t \<and> t \<noteq> 0 \<and> now - t \<le> 3600000 \<and> \<not> forceRefresh \<longrightarrow>
      \<not> isCacheExpired lastFetchTime key now forceRefresh) \<and>
   isCacheExpired lastFetchTime key now True"
  by (auto simp: isCacheExpired_def CACHE_EXPIRATION_def split: option.splits)

theorem cache_expiry_witness:
  "isCacheExpired Map.empty ''Paris-FR'' 5000 False \<and>
   isCacheExpired [''Paris-FR'' \<mapsto> 0] ''Paris-FR'' 5000 False \<and>
   isCacheExpired [''Paris-FR'' \<mapsto> 1000] ''Paris-FR'' 3601001 False \<and>
   \<not> isCacheExpired [''Paris-FR'' \<mapsto> 1000] ''Paris-FR'' 3600999 False"
  using cache_expiry [where lastFetchTime = Map.empty and key = "''Paris-FR''" and now = 5000
                        and forceRefresh = False and t = 0]
        cache_expiry [where lastFetchTime = "[''Paris-FR'' \<mapsto> 0]" and key = "''Paris-FR''"
                        and now = 5000 and forceRefresh = False and t = 0]
        cache_expiry [where lastFetchTime = "[''Paris-FR'' \<mapsto> 1000]" and key = "''Paris-FR''"
                        and now = 3601001 and forceRefresh = False and t = 1000]
        cache_expiry [where lastFetchTime = "[''Paris-FR'' \<mapsto> 1000]" and key = "''Paris-FR''"
                        and now = 3600999 and forceRefresh = False and t = 1000]
  by simp

text \<open>
  An entry written at time \<open>1000\<close> and read at \<open>3601000\<close> is exactly one hour old, and it
  is not expired: online, \<open>getWeatherData\<close> returns the cached snapshot and leaves the
  cache and its time as they are.
\<close>

theorem cache_age_one_hour_counterexample:
  "\<not> isCacheExpired [''Paris-FR'' \<mapsto> 1000] ''Paris-FR'' (1000 + 3600000) False \<and>
   getWeatherData example_platform (example_net\<lparr>net_now := 1000 + 3600000\<rparr>)
     (cached_state\<lparr>weather_last_fetch := [''Paris-FR'' \<mapsto> 1000]\<rparr>) paris False =
     (Inr (Some (example_snapshot paris)),
      cached_state\<lparr>weather_last_fetch := [''Paris-FR'' \<mapsto> 1000]\<rparr>)"
  by (simp add: isCacheExpired_def CACHE_EXPIRATION_def getWeatherData_def getWeatherData_try_def
        Let_def paris_key isInternetAvailable_def example_net_def cached_state_def
        empty_state_def)

subsection \<open>The pieces of a call, one at a time\<close>

lemma calls_inv_initial: "calls_inv initial_calls"
  by (simp add: calls_inv_def initial_calls_def)

lemma calls_invI:
  assumes "\<And>key n. cs_activeRequests s key = Some n \<Longrightarrow>
             n < length (cs_requests s) \<and> req_key (cs_requests s ! n) = key"
    and "\<And>n. n < length (cs_requests s) \<Longrightarrow> req_value (cs_requests s ! n) = None \<Longrightarrow>
             cs_activeRequests s (req_key (cs_requests s ! n)) = Some n"
    and "\<And>n. n \<in> set (cs_awaiting s) \<Longrightarrow> n < length (cs_requests s) \<and>
             cs_activeRequests s (req_key (cs_requests s ! n)) = Some n"
    and "distinct (cs_awaiting s)"
  shows "calls_inv s"
  using assms unfolding calls_inv_def by blast

lemma calls_invD:
  assumes "calls_inv s"
  shows "cs_activeRequests s key = Some n \<Longrightarrow>
             n < length (cs_requests s) \<and> req_key (cs_requests s ! n) = key"
    and "n < length (cs_requests s) \<Longrightarrow> req_value (cs_requests s ! n) = None \<Longrightarrow>
             cs_activeRequests s (req_key (cs_requests s ! n)) = Some n"
    and "n \<in> set (cs_awaiting s) \<Longrightarrow> n < length (cs_requests s) \<and>
             cs_activeRequests s (req_key (cs_requests s ! n)) = Some n"
    and "distinct (cs_awaiting s)"
  using assms unfolding calls_inv_def by blast+

text \<open>The three ways in which the first piece of a call ends.\<close>

lemma do_call_cases:
  obtains
    (threw) e where
      "cityKey P city = Inl e \<or>
       (\<exists>key. cityKey P city = Inr key \<and> cs_activeRequests s key = None \<and>
              coordinates_text P city = Inl e)"
      "do_call P caller city s = s\<lparr>cs_returned := (cs_returned s)(caller \<mapsto> Inl e)\<rparr>"
  | (shared) key n where
      "cityKey P city = Inr key" "cs_activeRequests s key = Some n"
      "do_call P caller city s = s\<lparr>cs_returned := (cs_returned s)(caller \<mapsto> Inr n)\<rparr>"
  | (created) key lat lon where
      "cityKey P city = Inr key" "cs_activeRequests s key = None"
      "coordinates_text P city = Inr (lat, lon)"
      "do_call P caller city s =
         s\<lparr>cs_activeRequests := (cs_activeRequests s)(key \<mapsto> length (cs_requests s)),
           cs_requests := cs_requests s @
             [\<lparr>req_key = key, req_city = city, req_lat = lat, req_lon = lon, req_value = None\<rparr>],
           cs_awaiting := cs_awaiting s @ [length (cs_requests s)],
           cs_returned := (cs_returned s)(caller \<mapsto> Inr (length (cs_requests s)))\<rparr>"
proof (cases "cityKey P city")
  case (Inl e)
  then have "do_call P caller city s = s\<lparr>cs_returned := (cs_returned s)(caller \<mapsto> Inl e)\<rparr>"
    by (simp add: do_call_def)
  with Inl show ?thesis by (intro threw [of e]) simp_all
next
  case (Inr key)
  show ?thesis
  proof (cases "cs_activeRequests s key")
    case (Some n)
    with Inr have "do_call P caller city s = s\<lparr>cs_returned := (cs_returned s)(caller \<mapsto> Inr n)\<rparr>"
      by (simp add: do_call_def)
    with Inr Some show ?thesis by (intro shared [of key n]) simp_all
  next
    case None
    show ?thesis
    proof (cases "coordinates_text P city")
      case (Inl e)
      with Inr None have
        "do_call P caller city s = s\<lparr>cs_returned := (cs_returned s)(caller \<mapsto> Inl e)\<rparr>"
        by (simp add: do_call_def)
      with Inr None Inl show ?thesis by (intro threw [of e]) simp_all
    next
      case (Inr written)
      obtain lat lon where t: "written = (lat, lon)" by (cases written) auto
      from \<open>cityKey P city = Inr key\<close> None Inr t show ?thesis
        by (intro created [of key lat lon]) (simp_all add: do_call_def Let_def)
    qed
  qed
qed

lemma calls_inv_returned:
  "calls_inv s \<Longrightarrow> calls_inv (s\<lparr>cs_returned := r\<rparr>)"
  by (simp add: calls_inv_def)

lemma calls_inv_call:
  assumes inv: "calls_inv s"
  shows "calls_inv (do_call P caller city s)"
proof (cases rule: do_call_cases [of P city s caller])
  case (threw e)
  with inv show ?thesis by (simp add: calls_inv_returned)
next
  case (shared key n)
  with inv show ?thesis by (simp add: calls_inv_returned)
next
  case (created key lat lon)
  let ?n = "length (cs_requests s)"
  let ?r = "\<lparr>req_key = key, req_city = city, req_lat = lat, req_lon = lon, req_value = None\<rparr>"
  let ?s' = "do_call P caller city s"
  have act: "cs_activeRequests ?s' = (cs_activeRequests s)(key \<mapsto> ?n)"
    and req: "cs_requests ?s' = cs_requests s @ [?r]"
    and awa: "cs_awaiting ?s' = cs_awaiting s @ [?n]"
    by (simp_all add: created(4))
  have key_old: "req_key (cs_requests s ! n) \<noteq> key"
    if "cs_activeRequests s (req_key (cs_requests s ! n)) = Some n" for n
    using that created(2) by auto
  show ?thesis
  proof (rule calls_invI)
    fix key' n assume "cs_activeRequests ?s' key' = Some n"
    then show "n < length (cs_requests ?s') \<and> req_key (cs_requests ?s' ! n) = key'"
      unfolding act req
      using calls_invD(1) [OF inv, of key' n]
      by (cases "key' = key") (auto simp: nth_append)
  next
    fix n
    assume n: "n < length (cs_requests ?s')" and v: "req_value (cs_requests ?s' ! n) = None"
    show "cs_activeRequests ?s' (req_key (cs_requests ?s' ! n)) = Some n"
    proof (cases "n < ?n")
      case True
      with v have "cs_activeRequests s (req_key (cs_requests s ! n)) = Some n"
        using calls_invD(2) [OF inv, of n] by (simp add: req nth_append)
      with True key_old [of n] show ?thesis by (simp add: act req nth_append)
    next
      case False
      with n have "n = ?n" by (simp add: req)
      then show ?thesis by (simp add: act req)
    qed
  next
    fix n assume "n \<in> set (cs_awaiting ?s')"
    then consider "n \<in> set (cs_awaiting s)" | "n = ?n" by (auto simp: awa)
    then show "n < length (cs_requests ?s') \<and>
               cs_activeRequests ?s' (req_key (cs_requests ?s' ! n)) = Some n"
    proof cases
      case 1
      with calls_invD(3) [OF inv, of n] key_old [of n] show ?thesis
        by (simp add: act req nth_append)
    next
      case 2
      then show ?thesis by (simp add: act req)
    qed
  next
    show "distinct (cs_awaiting ?s')"
      using calls_invD(3) [OF inv, of ?n] calls_invD(4) [OF inv] by (auto simp: awa)
  qed
qed

lemma calls_inv_settle:
  assumes inv: "calls_inv s"
  shows "calls_inv (do_settle P n now w f s)"
proof (cases "n < length (cs_requests s) \<and> req_value (cs_requests s ! n) = None")
  case False
  then have "do_settle P n now w f s = s" by (auto simp: do_settle_def)
  with inv show ?thesis by simp
next
  case True
  let ?s' = "do_settle P n now w f s"
  let ?v = "request_outcome P now (req_city (cs_requests s ! n)) w f"
  have req: "cs_requests ?s' = (cs_requests s)[n := (cs_requests s ! n)\<lparr>req_value := Some ?v\<rparr>]"
    and act: "cs_activeRequests ?s' = cs_activeRequests s"
    and awa: "cs_awaiting ?s' = cs_awaiting s"
    using True by (simp_all add: do_settle_def Let_def)
  have len: "length (cs_requests ?s') = length (cs_requests s)"
    by (simp add: req)
  have key: "req_key (cs_requests ?s' ! m) = req_key (cs_requests s ! m)"
    if "m < length (cs_requests s)" for m
    using that by (cases "m = n") (simp_all add: req)
  have val: "req_value (cs_requests s ! m) = None"
    if "m < length (cs_requests s)" "req_value (cs_requests ?s' ! m) = None" for m
    using that by (cases "m = n") (simp_all add: req)
  show ?thesis
  proof (rule calls_invI)
    fix key' m assume "cs_activeRequests ?s' key' = Some m"
    with calls_invD(1) [OF inv, of key' m] show
      "m < length (cs_requests ?s') \<and> req_key (cs_requests ?s' ! m) = key'"
      by (simp add: act len key)
  next
    fix m
    assume "m < length (cs_requests ?s')" "req_value (cs_requests ?s' ! m) = None"
    with calls_invD(2) [OF inv, of m] val [of m] show
      "cs_activeRequests ?s' (req_key (cs_requests ?s' ! m)) = Some m"
      by (simp add: act len key)
  next
    fix m assume "m \<in> set (cs_awaiting ?s')"
    with calls_invD(3) [OF inv, of m] show
      "m < length (cs_requests ?s') \<and>
       cs_activeRequests ?s' (req_key (cs_requests ?s' ! m)) = Some m"
      by (simp add: act len key awa)
  next
    show "distinct (cs_awaiting ?s')"
      using calls_invD(4) [OF inv] by (simp add: awa)
  qed
qed

lemma calls_inv_delete:
  assumes inv: "calls_inv s" and n: "n \<in> set (cs_awaiting s)"
    and v: "req_value (cs_requests s ! n) \<noteq> None"
  shows "calls_inv (delete_active s n)"
proof (rule calls_invI)
  let ?k = "req_key (cs_requests s ! n)"
  let ?s' = "delete_active s n"
  have act: "cs_activeRequests ?s' = (cs_activeRequests s)(?k := None)"
    and req: "cs_requests ?s' = cs_requests s"
    and awa: "cs_awaiting ?s' = remove1 n (cs_awaiting s)"
    by (simp_all add: delete_active_def)
  from calls_invD(3) [OF inv n] have stored: "cs_activeRequests s ?k = Some n" by simp
  {
    fix key m assume "cs_activeRequests ?s' key = Some m"
    then show "m < length (cs_requests ?s') \<and> req_key (cs_requests ?s' ! m) = key"
      using calls_invD(1) [OF inv, of key m] by (simp add: act req split: if_splits)
  next
    fix m
    assume m: "m < length (cs_requests ?s')" "req_value (cs_requests ?s' ! m) = None"
    then have am: "cs_activeRequests s (req_key (cs_requests s ! m)) = Some m"
      using calls_invD(2) [OF inv, of m] by (simp add: req)
    have "req_key (cs_requests s ! m) \<noteq> ?k"
    proof
      assume "req_key (cs_requests s ! m) = ?k"
      with am have "cs_activeRequests s ?k = Some m" by (simp only:)
      with stored have "m = n" by (simp only: option.inject)
      with m v show False by (simp add: req)
    qed
    with am show "cs_activeRequests ?s' (req_key (cs_requests ?s' ! m)) = Some m"
      by (simp add: act req)
  next
    fix m assume "m \<in> set (cs_awaiting ?s')"
    with calls_invD(4) [OF inv] have m: "m \<in> set (cs_awaiting s)" "m \<noteq> n"
      by (auto simp: awa)
    from calls_invD(3) [OF inv m(1)]
    have am: "m < length (cs_requests s)"
         "cs_activeRequests s (req_key (cs_requests s ! m)) = Some m" by simp_all
    have "req_key (cs_requests s ! m) \<noteq> ?k"
    proof
      assume "req_key (cs_requests s ! m) = ?k"
      with am(2) have "cs_activeRequests s ?k = Some m" by (simp only:)
      with stored have "m = n" by (simp only: option.inject)
      with m(2) show False by simp
    qed
    with am show "m < length (cs_requests ?s') \<and>
                  cs_activeRequests ?s' (req_key (cs_requests ?s' ! m)) = Some m"
      by (simp add: act req)
  next
    show "distinct (cs_awaiting ?s')"
      using calls_invD(4) [OF inv] by (simp add: awa)
  }
qed

text \<open>The third piece either does nothing or deletes the key of a settled promise.\<close>

lemma do_resume_cases:
  obtains (idle) "do_resume n s = s"
  | (deleted) "n \<in> set (cs_awaiting s)" "n < length (cs_requests s)"
      "req_value (cs_requests s ! n) \<noteq> None" "do_resume n s = delete_active s n"
proof (cases "n \<in> set (cs_awaiting s) \<and> n < length (cs_requests s)")
  case False
  then have "do_resume n s = s" by (auto simp: do_resume_def)
  then show ?thesis by (rule idle)
next
  case True
  show ?thesis
  proof (cases "req_value (cs_requests s ! n)")
    case None
    with True have "do_resume n s = s" by (simp add: do_resume_def)
    then show ?thesis by (rule idle)
  next
    case (Some v)
    with True have "do_resume n s = delete_active s n"
      by (cases v) (simp_all add: do_resume_def)
    with True Some show ?thesis by (intro deleted) simp_all
  qed
qed

lemma calls_inv_resume:
  assumes inv: "calls_inv s"
  shows "calls_inv (do_resume n s)"
proof (cases rule: do_resume_cases [of n s])
  case idle
  with inv show ?thesis by simp
next
  case deleted
  with calls_inv_delete [OF inv, of n] show ?thesis by simp
qed

lemma calls_inv_step: "calls_inv s \<Longrightarrow> calls_inv (step P s a)"
  by (cases a) (simp_all add: calls_inv_call calls_inv_settle calls_inv_resume)

lemma calls_inv_foldl: "calls_inv s \<Longrightarrow> calls_inv (foldl (step P) s actions)"
  by (induction actions arbitrary: s) (simp_all add: calls_inv_step)

lemma calls_inv_run: "calls_inv (run P actions)"
  by (simp add: run_def calls_inv_foldl calls_inv_initial)

subsection \<open>One request in flight for a key\<close>

lemma filter_at_most_one:
  assumes "\<And>i j. i < length xs \<Longrightarrow> j < length xs \<Longrightarrow> p (xs ! i) \<Longrightarrow> p (xs ! j) \<Longrightarrow> i = j"
  shows "length (filter p xs) \<le> 1"
  using assms
proof (induction xs)
  case Nil
  show ?case by simp
next
  case (Cons x xs)
  have tl: "\<And>i j. i < length xs \<Longrightarrow> j < length xs \<Longrightarrow> p (xs ! i) \<Longrightarrow> p (xs ! j) \<Longrightarrow> i = j"
  proof -
    fix i j assume "i < length xs" "j < length xs" "p (xs ! i)" "p (xs ! j)"
    with Cons.prems [of "Suc i" "Suc j"] show "i = j" by simp
  qed
  show ?case
  proof (cases "p x")
    case False
    with Cons.IH [OF tl] show ?thesis by simp
  next
    case True
    have "\<not> p y" if "y \<in> set xs" for y
    proof
      assume py: "p y"
      from that obtain j where "j < length xs" "xs ! j = y"
        by (auto simp: in_set_conv_nth)
      with Cons.prems [of 0 "Suc j"] True py show False by simp
    qed
    then have "filter p xs = []" by (simp add: filter_empty_conv)
    with True show ?thesis by simp
  qed
qed

lemma one_in_flight: "calls_inv s \<Longrightarrow> length (in_flight s key) \<le> 1"
  unfolding in_flight_def
proof (rule filter_at_most_one)
  fix i j
  assume inv: "calls_inv s"
    and i: "i < length (cs_requests s)" and j: "j < length (cs_requests s)"
    and pi: "req_key (cs_requests s ! i) = key \<and> req_value (cs_requests s ! i) = None"
    and pj: "req_key (cs_requests s ! j) = key \<and> req_value (cs_requests s ! j) = None"
  from calls_invD(2) [OF inv i] pi have "cs_activeRequests s key = Some i" by simp
  moreover from calls_invD(2) [OF inv j] pj have "cs_activeRequests s key = Some j" by simp
  ultimately show "i = j" by simp
qed

lemma run_append: "run P (xs @ ys) = foldl (step P) (run P xs) ys"
  by (simp add: run_def)

lemma run_snoc: "run P (actions @ [a]) = step P (run P actions) a"
  by (simp add: run_def)

text \<open>A call that yields a promise leaves that promise stored under its key.\<close>

lemma call_stores:
  assumes k: "cityKey P city = Inr key"
    and r: "cs_returned (do_call P c city s) c = Some (Inr n)"
  shows "cs_activeRequests (do_call P c city s) key = Some n"
proof (cases rule: do_call_cases [of P city s c])
  case (threw e)
  with r show ?thesis by simp
next
  case (shared key' n')
  with k r show ?thesis by simp
next
  case (created key' lat lon)
  with k r show ?thesis by simp
qed

lemma call_sends:
  assumes k: "cityKey P city = Inr key"
    and r: "cs_returned (do_call P c city s) c = Some (Inr n)"
  shows "length (sent_for (do_call P c city s) key) =
           (if cs_activeRequests s key = None then Suc (length (sent_for s key))
            else length (sent_for s key))"
proof (cases rule: do_call_cases [of P city s c])
  case (threw e)
  with r show ?thesis by simp
next
  case (shared key' n')
  with k show ?thesis by (simp add: sent_for_def)
next
  case (created key' lat lon)
  with k show ?thesis by (simp add: sent_for_def)
qed

text \<open>
  While the creating call of a promise has not continued, the promise stays under its
  key and no request is sent for the key.
\<close>

lemma keys_after_settle:
  "map req_key (rs[m := (rs ! m)\<lparr>req_value := v\<rparr>]) = map req_key rs"
  by (induction rs arbitrary: m) (auto split: nat.splits)

lemma sent_for_settled:
  "length (sent_for (s\<lparr>cs_requests := (cs_requests s)[m := (cs_requests s ! m)\<lparr>req_value := v\<rparr>]\<rparr>)
             key) = length (sent_for s key)"
proof -
  let ?new = "(cs_requests s)[m := (cs_requests s ! m)\<lparr>req_value := v\<rparr>]"
  have h: "length (filter (\<lambda>r. req_key r = key) rs) =
           length (filter (\<lambda>k. k = key) (map req_key rs))" for rs :: "request list"
    by (induction rs) auto
  have "length (sent_for (s\<lparr>cs_requests := ?new\<rparr>) key) =
        length (filter (\<lambda>r. req_key r = key) ?new)"
    by (simp add: sent_for_def)
  also have "\<dots> = length (filter (\<lambda>k. k = key) (map req_key ?new))"
    by (rule h)
  also have "\<dots> = length (filter (\<lambda>k. k = key) (map req_key (cs_requests s)))"
    by (simp only: keys_after_settle)
  also have "\<dots> = length (sent_for s key)"
    by (simp only: h [symmetric] sent_for_def)
  finally show ?thesis .
qed

lemma step_keeps:
  assumes inv: "calls_inv s" and stored: "cs_activeRequests s key = Some n"
    and a: "a \<noteq> Resume n"
  shows "cs_activeRequests (step P s a) key = Some n \<and>
         length (sent_for (step P s a) key) = length (sent_for s key)"
proof (cases a)
  case (Call c city)
  show ?thesis
  proof (cases rule: do_call_cases [of P city s c])
    case (threw e)
    with Call stored show ?thesis by (simp add: sent_for_def)
  next
    case (shared key' n')
    with Call stored show ?thesis by (simp add: sent_for_def)
  next
    case (created key' lat lon)
    with stored have "key' \<noteq> key" by auto
    with Call created stored show ?thesis by (simp add: sent_for_def)
  qed
next
  case (Settle m now w f)
  show ?thesis
  proof (cases "m < length (cs_requests s) \<and> req_value (cs_requests s ! m) = None")
    case False
    then have "do_settle P m now w f s = s" by (auto simp: do_settle_def)
    with Settle stored show ?thesis by simp
  next
    case True
    then have st: "do_settle P m now w f s =
      s\<lparr>cs_requests := (cs_requests s)
          [m := (cs_requests s ! m)
             \<lparr>req_value := Some (request_outcome P now (req_city (cs_requests s ! m)) w f)\<rparr>]\<rparr>"
      by (simp add: do_settle_def Let_def)
    have "length (sent_for (do_settle P m now w f s) key) = length (sent_for s key)"
      unfolding st by (rule sent_for_settled)
    with Settle stored st show ?thesis by simp
  qed
next
  case (Resume m)
  with a have mn: "m \<noteq> n" by simp
  show ?thesis
  proof (cases rule: do_resume_cases [of m s])
    case idle
    with Resume stored show ?thesis by simp
  next
    case deleted
    from calls_invD(3) [OF inv deleted(1)]
    have "cs_activeRequests s (req_key (cs_requests s ! m)) = Some m" by simp
    with stored mn have "req_key (cs_requests s ! m) \<noteq> key" by auto
    with Resume deleted stored show ?thesis
      by (simp add: delete_active_def sent_for_def)
  qed
qed

lemma foldl_keeps:
  "calls_inv s \<Longrightarrow> cs_activeRequests s key = Some n \<Longrightarrow> Resume n \<notin> set actions \<Longrightarrow>
   cs_activeRequests (foldl (step P) s actions) key = Some n \<and>
   length (sent_for (foldl (step P) s actions) key) = length (sent_for s key)"
proof (induction actions arbitrary: s)
  case Nil
  then show ?case by simp
next
  case (Cons a actions)
  from Cons.prems have a: "a \<noteq> Resume n" by auto
  from step_keeps [OF Cons.prems(1,2) a, of P]
  have k: "cs_activeRequests (step P s a) key = Some n"
    and l: "length (sent_for (step P s a) key) = length (sent_for s key)" by simp_all
  from Cons.prems have "Resume n \<notin> set actions" by simp
  from Cons.IH [OF calls_inv_step [OF Cons.prems(1)] k this] l
  show ?case by simp
qed

lemma step_returned_by:
  "\<not> is_call_by c a \<Longrightarrow> cs_returned (step P s a) c = cs_returned s c"
proof (cases a)
  case (Call c' city)
  assume "\<not> is_call_by c a"
  with Call have "c' \<noteq> c" by simp
  then show ?thesis
    unfolding Call
    by (cases rule: do_call_cases [of P city s c']) simp_all
next
  case (Settle m now w f)
  then show ?thesis by (simp add: do_settle_def Let_def)
next
  case (Resume m)
  then show ?thesis
    by (cases rule: do_resume_cases [of m s]) (simp_all add: delete_active_def)
qed

lemma foldl_returned_by:
  "no_calls_by c actions \<Longrightarrow> cs_returned (foldl (step P) s actions) c = cs_returned s c"
proof (induction actions arbitrary: s)
  case Nil
  show ?case by simp
next
  case (Cons a actions)
  then show ?case by (simp add: no_calls_by_def step_returned_by)
qed

lemma no_calls_by_append:
  "no_calls_by c (xs @ ys) \<longleftrightarrow> no_calls_by c xs \<and> no_calls_by c ys"
  by (auto simp: no_calls_by_def list_ex_iff)

lemma no_calls_by_Cons:
  "no_calls_by c (a # ys) \<longleftrightarrow> \<not> is_call_by c a \<and> no_calls_by c ys"
  by (auto simp: no_calls_by_def)

lemma received_same:
  "cs_returned s c2 = cs_returned s c1 \<Longrightarrow> received s c2 = received s c1"
  by (simp add: received_def)

lemma settle_then_resume:
  assumes inv: "calls_inv s" and n: "n \<in> set (cs_awaiting s)"
  shows "cs_activeRequests (do_resume n (do_settle P n now w f s))
           (req_key (cs_requests s ! n)) = None \<and>
         n \<notin> set (cs_awaiting (do_resume n (do_settle P n now w f s)))"
proof -
  let ?s1 = "do_settle P n now w f s"
  from calls_invD(3) [OF inv n] have len: "n < length (cs_requests s)" by simp
  have awa: "cs_awaiting ?s1 = cs_awaiting s"
    and len1: "length (cs_requests ?s1) = length (cs_requests s)"
    by (simp_all add: do_settle_def Let_def)
  have key: "req_key (cs_requests ?s1 ! n) = req_key (cs_requests s ! n)"
    using len by (simp add: do_settle_def Let_def)
  have val: "req_value (cs_requests ?s1 ! n) \<noteq> None"
    using len by (simp add: do_settle_def Let_def)
  then obtain v where v: "req_value (cs_requests ?s1 ! n) = Some v" by auto
  from n len v awa len1 have res: "do_resume n ?s1 = delete_active ?s1 n"
    by (cases v) (simp_all add: do_resume_def)
  have "calls_inv ?s1" using inv by (rule calls_inv_settle)
  then have "distinct (cs_awaiting ?s1)" by (rule calls_invD(4))
  then show ?thesis
    unfolding res by (simp add: delete_active_def key)
qed

text \<open>Two calls for one key of which the second is made while the first is in flight.\<close>

lemma concurrent_calls:
  assumes k: "cityKey P city = Inr key" and k': "cityKey P city' = Inr key"
    and r: "cs_returned (step P (run P actions) (Call c1 city)) c1 = Some (Inr n)"
    and b: "Resume n \<notin> set between"
    and c1: "no_calls_by c1 (between @ Call c2 city' # later)"
    and c2: "no_calls_by c2 later"
  shows "length (sent_for (run P (actions @ [Call c1 city])) key) =
           (if cs_activeRequests (run P actions) key = None
            then Suc (length (sent_for (run P actions) key))
            else length (sent_for (run P actions) key))"
    and "length (sent_for (run P (actions @ Call c1 city # between @ [Call c2 city'])) key) =
           length (sent_for (run P (actions @ [Call c1 city])) key)"
    and "cs_requests (run P (actions @ Call c1 city # between @ [Call c2 city'])) =
           cs_requests (run P (actions @ Call c1 city # between))"
    and "cs_returned (run P (actions @ Call c1 city # between @ Call c2 city' # later)) c1 =
           Some (Inr n)"
    and "cs_returned (run P (actions @ Call c1 city # between @ Call c2 city' # later)) c2 =
           Some (Inr n)"
proof -
  let ?s0 = "run P actions"
  let ?s1 = "do_call P c1 city ?s0"
  let ?s2 = "foldl (step P) ?s1 between"
  let ?s3 = "do_call P c2 city' ?s2"
  let ?s4 = "foldl (step P) ?s3 later"
  have e1: "run P (actions @ [Call c1 city]) = ?s1"
    and e2: "run P (actions @ Call c1 city # between) = ?s2"
    and e3: "run P (actions @ Call c1 city # between @ [Call c2 city']) = ?s3"
    and e4: "run P (actions @ Call c1 city # between @ Call c2 city' # later) = ?s4"
    by (simp_all add: run_def)
  have inv1: "calls_inv ?s1" by (simp add: calls_inv_call calls_inv_run)
  from r have r': "cs_returned (do_call P c1 city ?s0) c1 = Some (Inr n)" by simp
  from call_stores [OF k r'] have st1: "cs_activeRequests ?s1 key = Some n" by simp
  from foldl_keeps [OF inv1 st1 b]
  have st2: "cs_activeRequests ?s2 key = Some n"
    and len2: "length (sent_for ?s2 key) = length (sent_for ?s1 key)" by simp_all
  from k' st2 have s3': "?s3 = ?s2\<lparr>cs_returned := (cs_returned ?s2)(c2 \<mapsto> Inr n)\<rparr>"
    by (simp add: do_call_def)
  from c1 have nb: "no_calls_by c1 between" and ne: "c2 \<noteq> c1" and nl: "no_calls_by c1 later"
    by (simp_all add: no_calls_by_append no_calls_by_Cons)
  have ret2: "cs_returned ?s2 c1 = Some (Inr n)"
    using foldl_returned_by [OF nb, of P ?s1] r by simp
  have ret3: "cs_returned ?s3 c1 = Some (Inr n)" "cs_returned ?s3 c2 = Some (Inr n)"
    using ret2 ne by (simp_all add: s3')
  show "length (sent_for (run P (actions @ [Call c1 city])) key) =
           (if cs_activeRequests (run P actions) key = None
            then Suc (length (sent_for (run P actions) key))
            else length (sent_for (run P actions) key))"
    unfolding e1 using call_sends [OF k r'] by simp
  show "length (sent_for (run P (actions @ Call c1 city # between @ [Call c2 city'])) key) =
           length (sent_for (run P (actions @ [Call c1 city])) key)"
    unfolding e1 e3 using len2 by (simp add: s3' sent_for_def)
  show "cs_requests (run P (actions @ Call c1 city # between @ [Call c2 city'])) =
           cs_requests (run P (actions @ Call c1 city # between))"
    unfolding e2 e3 by (simp add: s3')
  show "cs_returned (run P (actions @ Call c1 city # between @ Call c2 city' # later)) c1 =
           Some (Inr n)"
    unfolding e4 using foldl_returned_by [OF nl, of P ?s3] ret3 by simp
  show "cs_returned (run P (actions @ Call c1 city # between @ Call c2 city' # later)) c2 =
           Some (Inr n)"
    unfolding e4 using foldl_returned_by [OF c2, of P ?s3] ret3 by simp
qed

text \<open>
  Claim C3. In every state that calls of \<open>fetchWeatherFromApi\<close>, answers of the provider
  and continuations of the calls lead to, at most one request is in flight for a cache
  key. Take two calls for cities with the same key, by callers \<open>c1\<close> and \<open>c2\<close>, of which
  the first yields promise \<open>n\<close> and the second is made before the creating call of \<open>n\<close>
  has continued; whatever else happens before, between and after them (calls for other
  cities, answers, continuations of other calls): the first call sends a pair of HTTP
  requests for the key only if no request is stored under it, no request is sent for
  the key from then on up to and with the second call, which sends none at all, and both
  callers hold promise \<open>n\<close> and receive its value, whatever that value is. When the
  creating call of a promise continues after the promise has settled, with a snapshot or
  with an error, the entry of its key is gone from \<open>activeRequests\<close>.
\<close>

theorem one_request_per_key:
  "(\<forall>key. length (in_flight (run P actions) key) \<le> 1) \<and>
   (cityKey P city = Inr key \<and> cityKey P city' = Inr key \<and>
    cs_returned (run P (actions @ [Call c1 city])) c1 = Some (Inr n) \<and>
    Resume n \<notin> set between \<and>
    no_calls_by c1 (between @ Call c2 city' # later) \<and> no_calls_by c2 later \<longrightarrow>
      length (sent_for (run P (actions @ [Call c1 city])) key) =
        (if cs_activeRequests (run P actions) key = None
         then Suc (length (sent_for (run P actions) key))
         else length (sent_for (run P actions) key)) \<and>
      length (sent_for (run P (actions @ Call c1 city # between @ [Call c2 city'])) key) =
        length (sent_for (run P (actions @ [Call c1 city])) key) \<and>
      cs_requests (run P (actions @ Call c1 city # between @ [Call c2 city'])) =
        cs_requests (run P (actions @ Call c1 city # between)) \<and>
      cs_returned (run P (actions @ Call c1 city # between @ Call c2 city' # later)) c1 =
        Some (Inr n) \<and>
      cs_returned (run P (actions @ Call c1 city # between @ Call c2 city' # later)) c2 =
        Some (Inr n) \<and>
      received (run P (actions @ Call c1 city # between @ Call c2 city' # later)) c2 =
        received (run P (actions @ Call c1 city # between @ Call c2 city' # later)) c1) \<and>
   (m \<in> set (cs_awaiting (run P actions)) \<longrightarrow>
      cs_activeRequests (run P (actions @ [Settle m now w f, Resume m]))
        (req_key (cs_requests (run P actions) ! m)) = None \<and>
      m \<notin> set (cs_awaiting (run P (actions @ [Settle m now w f, Resume m]))))"
proof -
  let ?s = "run P actions"
  have inv: "calls_inv ?s" by (rule calls_inv_run)
  have one: "\<forall>key. length (in_flight ?s key) \<le> 1"
    using one_in_flight [OF inv] by simp
  have two: "length (sent_for (run P (actions @ [Call c1 city])) key) =
        (if cs_activeRequests (run P actions) key = None
         then Suc (length (sent_for (run P actions) key))
         else length (sent_for (run P actions) key)) \<and>
      length (sent_for (run P (actions @ Call c1 city # between @ [Call c2 city'])) key) =
        length (sent_for (run P (actions @ [Call c1 city])) key) \<and>
      cs_requests (run P (actions @ Call c1 city # between @ [Call c2 city'])) =
        cs_requests (run P (actions @ Call c1 city # between)) \<and>
      cs_returned (run P (actions @ Call c1 city # between @ Call c2 city' # later)) c1 =
        Some (Inr n) \<and>
      cs_returned (run P (actions @ Call c1 city # between @ Call c2 city' # later)) c2 =
        Some (Inr n) \<and>
      received (run P (actions @ Call c1 city # between @ Call c2 city' # later)) c2 =
        received (run P (actions @ Call c1 city # between @ Call c2 city' # later)) c1"
    if h: "cityKey P city = Inr key \<and> cityKey P city' = Inr key \<and>
           cs_returned (run P (actions @ [Call c1 city])) c1 = Some (Inr n) \<and>
           Resume n \<notin> set between \<and>
           no_calls_by c1 (between @ Call c2 city' # later) \<and> no_calls_by c2 later"
  proof -
    from h have k: "cityKey P city = Inr key" and k': "cityKey P city' = Inr key"
      and r: "cs_returned (step P (run P actions) (Call c1 city)) c1 = Some (Inr n)"
      and b: "Resume n \<notin> set between"
      and c1: "no_calls_by c1 (between @ Call c2 city' # later)"
      and c2: "no_calls_by c2 later"
      by (simp_all add: run_snoc)
    note cc = concurrent_calls [OF k k' r b c1 c2]
    from cc(4,5) have "received (run P (actions @ Call c1 city # between @ Call c2 city' # later)) c2 =
        received (run P (actions @ Call c1 city # between @ Call c2 city' # later)) c1"
      by (intro received_same) simp
    with cc show ?thesis by simp
  qed
  have three: "cs_activeRequests (run P (actions @ [Settle m now w f, Resume m]))
        (req_key (cs_requests ?s ! m)) = None \<and>
      m \<notin> set (cs_awaiting (run P (actions @ [Settle m now w f, Resume m])))"
    if "m \<in> set (cs_awaiting ?s)"
    using settle_then_resume [OF inv that, of P now w f] by (simp add: run_append)
  from one two three show ?thesis by blast
qed

lemma ok_outcome:
  "request_outcome example_platform 5000 city ok_weather ok_forecast = Inr (example_snapshot city)"
  using example_request [of "''0''" city "''0''"]
  by (simp add: example_net_fields ok_weather_def ok_forecast_def)

lemma failed_outcome:
  "request_outcome P now city (Inl NetworkError) (Inl NetworkError) = Inl NetworkError"
  by (simp add: request_outcome_def andThen_def)

lemma lyon_key: "cityKey example_platform lyon = Inr ''Lyon-FR''"
  by (simp add: cityKey_def lyon_def andThen_def)

lemma lyon_text: "coordinates_text example_platform lyon = Inr (''45'', ''4'')"
  by (simp add: coordinates_text_def lyon_def andThen_def example_platform_fields
        example_number_def)

lemma run_paris:
  "run example_platform [Call 2 paris] =
   \<lparr>cs_activeRequests = [''Paris-FR'' \<mapsto> 0],
    cs_requests = [\<lparr>req_key = ''Paris-FR'', req_city = paris, req_lat = ''48'', req_lon = ''2'',
                     req_value = None\<rparr>],
    cs_awaiting = [0],
    cs_returned = [2 \<mapsto> Inr 0]\<rparr>"
  by (simp add: run_def initial_calls_def do_call_def paris_key paris_text Let_def)

lemma run_paris_lyon:
  "run example_platform [Call 2 paris, Call 4 lyon] =
   \<lparr>cs_activeRequests = [''Paris-FR'' \<mapsto> 0, ''Lyon-FR'' \<mapsto> Suc 0],
    cs_requests = [\<lparr>req_key = ''Paris-FR'', req_city = paris, req_lat = ''48'', req_lon = ''2'',
                     req_value = None\<rparr>,
                   \<lparr>req_key = ''Lyon-FR'', req_city = lyon, req_lat = ''45'', req_lon = ''4'',
                     req_value = None\<rparr>],
    cs_awaiting = [0, Suc 0],
    cs_returned = [2 \<mapsto> Inr 0, 4 \<mapsto> Inr (Suc 0)]\<rparr>"
  using run_snoc [of example_platform "[Call 2 paris]" "Call 4 lyon"]
  by (simp add: run_paris do_call_def lyon_key lyon_text Let_def)

lemma run_paris_lyon_paris:
  "run example_platform [Call 2 paris, Call 4 lyon, Call 3 paris] =
   \<lparr>cs_activeRequests = [''Paris-FR'' \<mapsto> 0, ''Lyon-FR'' \<mapsto> Suc 0],
    cs_requests = [\<lparr>req_key = ''Paris-FR'', req_city = paris, req_lat = ''48'', req_lon = ''2'',
                     req_value = None\<rparr>,
                   \<lparr>req_key = ''Lyon-FR'', req_city = lyon, req_lat = ''45'', req_lon = ''4'',
                     req_value = None\<rparr>],
    cs_awaiting = [0, Suc 0],
    cs_returned = [2 \<mapsto> Inr 0, 4 \<mapsto> Inr (Suc 0), 3 \<mapsto> Inr 0]\<rparr>"
  using run_snoc [of example_platform "[Call 2 paris, Call 4 lyon]" "Call 3 paris"]
  by (simp add: run_paris_lyon do_call_def paris_key)

lemma run_paris_lyon_paris_settled:
  "run example_platform
     [Call 2 paris, Call 4 lyon, Call 3 paris, Settle 0 5000 ok_weather ok_forecast] =
   \<lparr>cs_activeRequests = [''Paris-FR'' \<mapsto> 0, ''Lyon-FR'' \<mapsto> Suc 0],
    cs_requests = [\<lparr>req_key = ''Paris-FR'', req_city = paris, req_lat = ''48'', req_lon = ''2'',
                     req_value = Some (Inr (example_snapshot paris))\<rparr>,
                   \<lparr>req_key = ''Lyon-FR'', req_city = lyon, req_lat = ''45'', req_lon = ''4'',
                     req_value = None\<rparr>],
    cs_awaiting = [0, Suc 0],
    cs_returned = [2 \<mapsto> Inr 0, 4 \<mapsto> Inr (Suc 0), 3 \<mapsto> Inr 0]\<rparr>"
  using run_snoc [of example_platform "[Call 2 paris, Call 4 lyon, Call 3 paris]"
                     "Settle 0 5000 ok_weather ok_forecast"]
  by (simp add: run_paris_lyon_paris do_settle_def ok_outcome Let_def)

lemma run_two:
  "run example_platform [Call 2 paris, Call 3 paris] =
   \<lparr>cs_activeRequests = [''Paris-FR'' \<mapsto> 0],
    cs_requests = [\<lparr>req_key = ''Paris-FR'', req_city = paris, req_lat = ''48'', req_lon = ''2'',
                     req_value = None\<rparr>],
    cs_awaiting = [0],
    cs_returned = [2 \<mapsto> Inr 0, 3 \<mapsto> Inr 0]\<rparr>"
  using run_snoc [of example_platform "[Call 2 paris]" "Call 3 paris"]
  by (simp add: run_paris do_call_def paris_key)

theorem one_request_per_key_witness:
  "cityKey example_platform paris = Inr ''Paris-FR'' \<and>
   cs_returned (run example_platform ([] @ [Call 2 paris])) 2 = Some (Inr 0) \<and>
   Resume 0 \<notin> set [Call 4 lyon] \<and>
   no_calls_by 2 ([Call 4 lyon] @ Call 3 paris # [Settle 0 5000 ok_weather ok_forecast]) \<and>
   no_calls_by 3 [Settle 0 5000 ok_weather ok_forecast] \<and>
   length (in_flight (run example_platform [Call 2 paris, Call 4 lyon, Call 3 paris])
             ''Paris-FR'') = 1 \<and>
   length (sent_for (run example_platform [Call 2 paris, Call 4 lyon, Call 3 paris])
             ''Paris-FR'') = 1 \<and>
   length (cs_requests (run example_platform [Call 2 paris, Call 4 lyon, Call 3 paris])) = 2 \<and>
   cs_returned (run example_platform
     [Call 2 paris, Call 4 lyon, Call 3 paris, Settle 0 5000 ok_weather ok_forecast]) 3 =
     Some (Inr 0) \<and>
   received (run example_platform
     [Call 2 paris, Call 4 lyon, Call 3 paris, Settle 0 5000 ok_weather ok_forecast]) 2 =
     Some (Inr (example_snapshot paris)) \<and>
   received (run example_platform
     [Call 2 paris, Call 4 lyon, Call 3 paris, Settle 0 5000 ok_weather ok_forecast]) 3 =
     Some (Inr (example_snapshot paris)) \<and>
   0 \<in> set (cs_awaiting (run example_platform [Call 2 paris, Call 3 paris])) \<and>
   cs_activeRequests (run example_platform
     ([Call 2 paris, Call 3 paris] @ [Settle 0 5000 ok_weather ok_forecast, Resume 0]))
     ''Paris-FR'' = None \<and>
   cs_activeRequests (run example_platform
     ([Call 2 paris, Call 3 paris] @ [Settle 0 5000 (Inl NetworkError) (Inl NetworkError), Resume 0]))
     ''Paris-FR'' = None"
proof -
  have r1: "cs_returned (run example_platform ([] @ [Call 2 paris])) 2 = Some (Inr 0)"
    by (simp add: run_paris)
  have nc: "no_calls_by 2 ([Call 4 lyon] @ Call 3 paris # [Settle 0 5000 ok_weather ok_forecast])"
    "no_calls_by 3 [Settle 0 5000 ok_weather ok_forecast]"
    by (simp_all add: no_calls_by_def)
  have fl: "length (in_flight (run example_platform [Call 2 paris, Call 4 lyon, Call 3 paris])
             ''Paris-FR'') = 1"
    by (simp add: run_paris_lyon_paris in_flight_def)
  have len: "length (cs_requests (run example_platform [Call 2 paris, Call 4 lyon, Call 3 paris]))
             = 2"
    by (simp add: run_paris_lyon_paris)
  have v2: "received (run example_platform
     [Call 2 paris, Call 4 lyon, Call 3 paris, Settle 0 5000 ok_weather ok_forecast]) 2 =
     Some (Inr (example_snapshot paris))"
    by (simp add: run_paris_lyon_paris_settled received_def)
  have aw: "0 \<in> set (cs_awaiting (run example_platform [Call 2 paris, Call 3 paris]))"
    by (simp add: run_two)
  have key: "req_key (cs_requests (run example_platform [Call 2 paris, Call 3 paris]) ! 0) =
             ''Paris-FR''"
    by (simp add: run_two)
  have s0: "sent_for (run example_platform []) ''Paris-FR'' = []"
    "cs_activeRequests (run example_platform []) ''Paris-FR'' = None"
    by (simp_all add: run_def initial_calls_def sent_for_def)
  note main = one_request_per_key
    [where P = example_platform and actions = "[]" and city = paris and city' = paris
       and key = "''Paris-FR''" and ?c1.0 = 2 and ?c2.0 = 3 and n = 0
       and between = "[Call 4 lyon]" and later = "[Settle 0 5000 ok_weather ok_forecast]"]
  from main r1 nc paris_key
  have sent: "length (sent_for (run example_platform [Call 2 paris, Call 4 lyon, Call 3 paris])
             ''Paris-FR'') = 1"
    and ret: "cs_returned (run example_platform
     [Call 2 paris, Call 4 lyon, Call 3 paris, Settle 0 5000 ok_weather ok_forecast]) 3 =
     Some (Inr 0)"
    and same: "received (run example_platform
     [Call 2 paris, Call 4 lyon, Call 3 paris, Settle 0 5000 ok_weather ok_forecast]) 3 =
     received (run example_platform
     [Call 2 paris, Call 4 lyon, Call 3 paris, Settle 0 5000 ok_weather ok_forecast]) 2"
    by (simp_all add: s0)
  from one_request_per_key
    [where P = example_platform and actions = "[Call 2 paris, Call 3 paris]" and m = 0
       and now = 5000 and w = ok_weather and f = ok_forecast] aw key
  have d1: "cs_activeRequests (run example_platform
     ([Call 2 paris, Call 3 paris] @ [Settle 0 5000 ok_weather ok_forecast, Resume 0]))
     ''Paris-FR'' = None"
    by simp
  from one_request_per_key
    [where P = example_platform and actions = "[Call 2 paris, Call 3 paris]" and m = 0
       and now = 5000 and w = "Inl NetworkError" and f = "Inl NetworkError"] aw key
  have d2: "cs_activeRequests (run example_platform
     ([Call 2 paris, Call 3 paris] @ [Settle 0 5000 (Inl NetworkError) (Inl NetworkError), Resume 0]))
     ''Paris-FR'' = None"
    by simp
  from paris_key r1 nc fl sent len ret v2 same aw d1 d2 show ?thesis by simp
qed

subsection \<open>The calls of a batch\<close>

text \<open>What a call yields when no request is in flight.\<close>

lemma own_fetch_request:
  "cityKey P city = Inr key \<Longrightarrow> coordinates_text P city = Inr (lat, lon) \<Longrightarrow>
   own_fetch S P city =
     request_outcome P (net_now (network S)) city
       (fetch_weather (network S) lat lon) (fetch_forecast (network S) lat lon)"
  by (simp add: own_fetch_def fetchWeatherFromApi_def Let_def)

lemma own_fetch_threw:
  "cityKey P city = Inl e \<or>
   (\<exists>key. cityKey P city = Inr key \<and> active key = None \<and> coordinates_text P city = Inl e) \<Longrightarrow>
   own_fetch S P city = Inl e"
  by (auto simp: own_fetch_def fetchWeatherFromApi_def)

lemma batch_inv_initial: "batch_inv S P batch initial_calls"
  by (simp add: batch_inv_def initial_calls_def)

lemma batch_inv_call:
  assumes inv: "calls_inv s" and b: "batch_inv S P batch s"
    and i: "i < length batch" and c: "update_city S P (batch ! i) = Some city"
  shows "batch_inv S P batch (do_call P i city s)"
proof (cases rule: do_call_cases [of P city s i])
  case (threw e)
  from threw(1) have "own_fetch S P city = Inl e" by (rule own_fetch_threw)
  with b i c show ?thesis
    unfolding threw(2) batch_inv_def by auto
next
  case (shared key n)
  from calls_invD(1) [OF inv shared(2)]
  have "n < length (cs_requests s)" "req_key (cs_requests s ! n) = key" by simp_all
  with b i c shared(1) show ?thesis
    unfolding shared(3) batch_inv_def by auto
next
  case (created key lat lon)
  let ?r = "\<lparr>req_key = key, req_city = city, req_lat = lat, req_lon = lon, req_value = None\<rparr>"
  from i c created have new: "request_ok S P batch ?r"
    by (auto simp: request_ok_def)
  have old: "\<forall>r\<in>set (cs_requests s). request_ok S P batch r"
    using b by (simp add: batch_inv_def)
  have thrown: "\<forall>j e. cs_returned s j = Some (Inl e) \<longrightarrow>
        j < length batch \<and>
        (\<exists>city. update_city S P (batch ! j) = Some city \<and> own_fetch S P city = Inl e)"
    using b by (simp add: batch_inv_def)
  have held: "\<forall>j n. cs_returned s j = Some (Inr n) \<longrightarrow>
        j < length batch \<and> n < length (cs_requests s) \<and>
        (\<exists>city. update_city S P (batch ! j) = Some city \<and>
                cityKey P city = Inr (req_key (cs_requests s ! n)))"
    using b by (simp add: batch_inv_def)
  let ?s' = "do_call P i city s"
  have req: "cs_requests ?s' = cs_requests s @ [?r]"
    and ret: "cs_returned ?s' = (cs_returned s)(i \<mapsto> Inr (length (cs_requests s)))"
    by (simp_all add: created(4))
  show ?thesis
    unfolding batch_inv_def req ret
  proof (intro conjI allI impI ballI)
    fix r assume "r \<in> set (cs_requests s @ [?r])"
    then have "r \<in> set (cs_requests s) \<or> r = ?r" by auto
    with old new show "request_ok S P batch r" by auto
  next
    fix j e assume "((cs_returned s)(i \<mapsto> Inr (length (cs_requests s)))) j = Some (Inl e)"
    then have "cs_returned s j = Some (Inl e)" by (cases "j = i") simp_all
    with thrown show "j < length batch"
      and "\<exists>city. update_city S P (batch ! j) = Some city \<and> own_fetch S P city = Inl e"
      by blast+
  next
    fix j n assume r: "((cs_returned s)(i \<mapsto> Inr (length (cs_requests s)))) j = Some (Inr n)"
    have "j < length batch \<and>
       n < length (cs_requests s @ [?r]) \<and>
       (\<exists>city. update_city S P (batch ! j) = Some city \<and>
               cityKey P city = Inr (req_key ((cs_requests s @ [?r]) ! n)))"
    proof (cases "j = i")
      case True
      with r have "n = length (cs_requests s)" by simp
      with True i c created(1) show ?thesis by simp
    next
      case False
      with r have "cs_returned s j = Some (Inr n)" by simp
      with held have "j < length batch" "n < length (cs_requests s)"
        "\<exists>city. update_city S P (batch ! j) = Some city \<and>
                cityKey P city = Inr (req_key (cs_requests s ! n))"
        by blast+
      then show ?thesis by (simp add: nth_append)
    qed
    then show "j < length batch"
      and "n < length (cs_requests s @ [?r])"
      and "\<exists>city. update_city S P (batch ! j) = Some city \<and>
             cityKey P city = Inr (req_key ((cs_requests s @ [?r]) ! n))"
      by simp_all
  qed
qed

lemma batch_inv_same:
  "cs_requests s' = cs_requests s \<Longrightarrow> cs_returned s' = cs_returned s \<Longrightarrow>
   batch_inv S P batch s' = batch_inv S P batch s"
  by (simp add: batch_inv_def)

lemma batch_inv_settle:
  assumes b: "batch_inv S P batch s" and n: "n < length (cs_requests s)"
  shows "batch_inv S P batch
           (do_settle P n (net_now (network S))
              (fetch_weather (network S) (req_lat (cs_requests s ! n)) (req_lon (cs_requests s ! n)))
              (fetch_forecast (network S) (req_lat (cs_requests s ! n)) (req_lon (cs_requests s ! n)))
              s)"
proof (cases "req_value (cs_requests s ! n) = None")
  case False
  then have "do_settle P n now w f s = s" for now w f
    by (auto simp: do_settle_def)
  with b show ?thesis by simp
next
  case True
  let ?r = "cs_requests s ! n"
  let ?v = "request_outcome P (net_now (network S)) (req_city ?r)
              (fetch_weather (network S) (req_lat ?r) (req_lon ?r))
              (fetch_forecast (network S) (req_lat ?r) (req_lon ?r))"
  let ?s' = "do_settle P n (net_now (network S))
              (fetch_weather (network S) (req_lat ?r) (req_lon ?r))
              (fetch_forecast (network S) (req_lat ?r) (req_lon ?r)) s"
  have req: "cs_requests ?s' = (cs_requests s)[n := ?r\<lparr>req_value := Some ?v\<rparr>]"
    and ret: "cs_returned ?s' = cs_returned s"
    using True n by (simp_all add: do_settle_def Let_def)
  from b n have ok: "request_ok S P batch ?r"
    by (simp add: batch_inv_def)
  then have "own_fetch S P (req_city ?r) = ?v"
    by (intro own_fetch_request [of P _ "req_key ?r"]) (simp_all add: request_ok_def)
  with ok have new: "request_ok S P batch (?r\<lparr>req_value := Some ?v\<rparr>)"
    by (simp add: request_ok_def)
  have keys: "req_key ((cs_requests s)[n := ?r\<lparr>req_value := Some ?v\<rparr>] ! m) =
              req_key (cs_requests s ! m)" if "m < length (cs_requests s)" for m
    using that by (cases "m = n") simp_all
  show ?thesis
    unfolding batch_inv_def req ret
  proof (intro conjI allI impI ballI)
    fix r assume "r \<in> set ((cs_requests s)[n := ?r\<lparr>req_value := Some ?v\<rparr>])"
    then have "r = ?r\<lparr>req_value := Some ?v\<rparr> \<or> r \<in> set (cs_requests s)"
      using set_update_subset_insert [of "cs_requests s" n "?r\<lparr>req_value := Some ?v\<rparr>"]
      by auto
    with new b show "request_ok S P batch r" by (auto simp: batch_inv_def)
  next
    fix i e assume "cs_returned s i = Some (Inl e)"
    with b show "i < length batch"
      and "\<exists>city. update_city S P (batch ! i) = Some city \<and> own_fetch S P city = Inl e"
      unfolding batch_inv_def by blast+
  next
    fix i m assume "cs_returned s i = Some (Inr m)"
    with b have h: "i < length batch" "m < length (cs_requests s)"
      "\<exists>city. update_city S P (batch ! i) = Some city \<and>
              cityKey P city = Inr (req_key (cs_requests s ! m))"
      unfolding batch_inv_def by blast+
    from h show "i < length batch" by simp
    from h show "m < length ((cs_requests s)[n := ?r\<lparr>req_value := Some ?v\<rparr>])" by simp
    from h keys [of m] show "\<exists>city. update_city S P (batch ! i) = Some city \<and>
      cityKey P city = Inr (req_key ((cs_requests s)[n := ?r\<lparr>req_value := Some ?v\<rparr>] ! m))"
      by simp
  qed
qed

lemma batch_inv_resume:
  assumes "batch_inv S P batch s"
  shows "batch_inv S P batch (do_resume n s)"
proof (cases rule: do_resume_cases [of n s])
  case idle
  with assms show ?thesis by simp
next
  case deleted
  have "batch_inv S P batch (delete_active s n) = batch_inv S P batch s"
    by (rule batch_inv_same) (simp_all add: delete_active_def)
  with assms deleted(4) show ?thesis by simp
qed

lemma happen_inv:
  assumes "calls_inv s" "batch_inv S P batch s"
  shows "calls_inv (happen S P batch s h)" "batch_inv S P batch (happen S P batch s h)"
proof -
  show "calls_inv (happen S P batch s h)"
    using assms(1)
    by (cases h)
       (simp_all add: calls_inv_call calls_inv_settle calls_inv_resume Let_def
             split: option.splits)
  show "batch_inv S P batch (happen S P batch s h)"
  proof (cases h)
    case (Found i)
    with assms show ?thesis
      by (simp add: batch_inv_call split: option.splits)
  next
    case (Answered n)
    with assms(2) show ?thesis
      by (simp add: batch_inv_settle Let_def)
  next
    case (Continued n)
    with assms(2) show ?thesis
      by (simp add: batch_inv_resume)
  qed
qed

lemma happen_inv_foldl:
  "calls_inv s \<Longrightarrow> batch_inv S P batch s \<Longrightarrow>
   calls_inv (foldl (happen S P batch) s hs) \<and> batch_inv S P batch (foldl (happen S P batch) s hs)"
proof (induction hs arbitrary: s)
  case Nil
  then show ?case by simp
next
  case (Cons h hs)
  from happen_inv [OF Cons.prems] Cons.IH show ?case by simp
qed

text \<open>The calls made when the batch starts.\<close>

lemma starts_calls:
  "a \<in> set (starts S P batch) \<Longrightarrow>
   \<exists>i city. a = Call i city \<and> i < length batch \<and> update_city S P (batch ! i) = Some city"
  by (auto simp: starts_def split: if_splits option.splits)

lemma starts_inv:
  assumes "\<forall>a\<in>set actions.
     \<exists>i city. a = Call i city \<and> i < length batch \<and> update_city S P (batch ! i) = Some city"
    and "calls_inv s" "batch_inv S P batch s"
  shows "calls_inv (foldl (step P) s actions) \<and> batch_inv S P batch (foldl (step P) s actions)"
  using assms
proof (induction actions arbitrary: s)
  case Nil
  then show ?case by simp
next
  case (Cons a actions)
  from Cons.prems(1) obtain i city where
    a: "a = Call i city" "i < length batch" "update_city S P (batch ! i) = Some city"
    by auto
  from Cons.prems(2) have c: "calls_inv (step P s a)" by (rule calls_inv_step)
  from batch_inv_call [OF Cons.prems(2,3) a(2,3)] a(1)
  have b: "batch_inv S P batch (step P s a)" by simp
  from Cons.prems(1) have "\<forall>a\<in>set actions.
     \<exists>i city. a = Call i city \<and> i < length batch \<and> update_city S P (batch ! i) = Some city"
    by simp
  from Cons.IH [OF this c b] show ?case by simp
qed

text \<open>What has been yielded stays yielded, and what has settled stays settled.\<close>

lemma step_called: "has_called s i \<Longrightarrow> has_called (step P s a) i"
proof (cases a)
  case (Call c city)
  assume "has_called s i"
  then show ?thesis
    unfolding Call
    by (cases rule: do_call_cases [of P city s c]) (simp_all add: has_called_def)
next
  case (Settle m now w f)
  assume "has_called s i"
  with Settle show ?thesis by (simp add: has_called_def do_settle_def Let_def)
next
  case (Resume m)
  assume "has_called s i"
  with Resume show ?thesis
    by (cases rule: do_resume_cases [of m s]) (simp_all add: has_called_def delete_active_def)
qed

lemma step_settled: "has_settled s n \<Longrightarrow> has_settled (step P s a) n"
proof (cases a)
  case (Call c city)
  assume "has_settled s n"
  then show ?thesis
    unfolding Call
    by (cases rule: do_call_cases [of P city s c]) (simp_all add: has_settled_def nth_append)
next
  case (Settle m now w f)
  assume h: "has_settled s n"
  show ?thesis
  proof (cases "m < length (cs_requests s) \<and> req_value (cs_requests s ! m) = None")
    case False
    then have "do_settle P m now w f s = s" by (auto simp: do_settle_def)
    with h Settle show ?thesis by simp
  next
    case True
    with h have "m \<noteq> n" by (auto simp: has_settled_def)
    with h True Settle show ?thesis by (simp add: has_settled_def do_settle_def Let_def)
  qed
next
  case (Resume m)
  assume "has_settled s n"
  with Resume show ?thesis
    by (cases rule: do_resume_cases [of m s]) (simp_all add: has_settled_def delete_active_def)
qed

lemma happen_step:
  "happen S P batch s h = s \<or> (\<exists>a. happen S P batch s h = step P s a)"
proof (cases h)
  case (Found i)
  show ?thesis
  proof (cases "i < length batch \<and> cs_returned s i = None")
    case False
    with Found show ?thesis by auto
  next
    case True
    show ?thesis
    proof (cases "update_city S P (batch ! i)")
      case None
      with Found True show ?thesis by simp
    next
      case (Some city)
      with Found True have "happen S P batch s h = step P s (Call i city)" by simp
      then show ?thesis by blast
    qed
  qed
next
  case (Answered n)
  show ?thesis
  proof (cases "n < length (cs_requests s)")
    case False
    with Answered show ?thesis by simp
  next
    case True
    with Answered have "happen S P batch s h =
      step P s (Settle n (net_now (network S))
        (fetch_weather (network S) (req_lat (cs_requests s ! n)) (req_lon (cs_requests s ! n)))
        (fetch_forecast (network S) (req_lat (cs_requests s ! n)) (req_lon (cs_requests s ! n))))"
      by (simp add: Let_def)
    then show ?thesis by blast
  qed
next
  case (Continued n)
  then have "happen S P batch s h = step P s (Resume n)" by simp
  then show ?thesis by blast
qed

lemma happen_called: "has_called s i \<Longrightarrow> has_called (happen S P batch s h) i"
  using happen_step [of S P batch s h] step_called [of s i P] by auto

lemma happen_settled: "has_settled s n \<Longrightarrow> has_settled (happen S P batch s h) n"
  using happen_step [of S P batch s h] step_settled [of s n P] by auto

lemma foldl_called: "has_called s i \<Longrightarrow> has_called (foldl (happen S P batch) s hs) i"
  by (induction hs arbitrary: s) (simp_all add: happen_called)

lemma foldl_settled: "has_settled s n \<Longrightarrow> has_settled (foldl (happen S P batch) s hs) n"
  by (induction hs arbitrary: s) (simp_all add: happen_settled)

text \<open>A search that returns makes its update call, and answers settle their promise.\<close>

lemma found_calls:
  assumes "i < length batch" "update_city S P (batch ! i) = Some city"
  shows "has_called (happen S P batch s (Found i)) i"
proof (cases "cs_returned s i = None")
  case False
  then have "has_called s i" by (simp add: has_called_def)
  then show ?thesis by (rule happen_called)
next
  case True
  with assms have "happen S P batch s (Found i) = do_call P i city s" by simp
  then show ?thesis
    by (cases rule: do_call_cases [of P city s i]) (simp_all add: has_called_def)
qed

lemma all_found:
  assumes "i \<in> set is" "i < length batch" "update_city S P (batch ! i) = Some city"
  shows "has_called (foldl (happen S P batch) s (map Found is)) i"
  using assms(1)
proof (induction "is" arbitrary: s)
  case Nil
  then show ?case by simp
next
  case (Cons j js)
  show ?case
  proof (cases "j = i")
    case True
    from found_calls [OF assms(2,3), of s] True
    have "has_called (happen S P batch s (Found j)) i" by simp
    then show ?thesis by (simp add: foldl_called)
  next
    case False
    with Cons.prems have "i \<in> set js" by simp
    from Cons.IH [OF this] show ?thesis by simp
  qed
qed

lemma answered_settles:
  assumes "n < length (cs_requests s)"
  shows "has_settled (happen S P batch s (Answered n)) n"
proof (cases "req_value (cs_requests s ! n) = None")
  case True
  with assms show ?thesis by (simp add: has_settled_def do_settle_def Let_def)
next
  case False
  with assms have "has_settled s n" by (simp add: has_settled_def)
  then show ?thesis by (rule happen_settled)
qed

lemma quiet_happen:
  assumes "\<forall>i. h \<noteq> Found i"
  shows "cs_returned (happen S P batch s h) = cs_returned s"
    and "length (cs_requests (happen S P batch s h)) = length (cs_requests s)"
proof -
  show "cs_returned (happen S P batch s h) = cs_returned s"
  proof (cases h)
    case (Found i)
    with assms show ?thesis by simp
  next
    case (Answered n)
    then show ?thesis by (simp add: do_settle_def Let_def)
  next
    case (Continued n)
    then show ?thesis
      by (cases rule: do_resume_cases [of n s]) (simp_all add: delete_active_def)
  qed
  show "length (cs_requests (happen S P batch s h)) = length (cs_requests s)"
  proof (cases h)
    case (Found i)
    with assms show ?thesis by simp
  next
    case (Answered n)
    then show ?thesis by (simp add: do_settle_def Let_def)
  next
    case (Continued n)
    then show ?thesis
      by (cases rule: do_resume_cases [of n s]) (simp_all add: delete_active_def)
  qed
qed

lemma quiet_foldl:
  assumes "\<forall>h\<in>set hs. \<forall>i. h \<noteq> Found i"
  shows "cs_returned (foldl (happen S P batch) s hs) = cs_returned s \<and>
         length (cs_requests (foldl (happen S P batch) s hs)) = length (cs_requests s)"
  using assms
proof (induction hs arbitrary: s)
  case Nil
  show ?case by simp
next
  case (Cons h hs)
  from Cons.prems have q: "\<forall>i. h \<noteq> Found i" and rest: "\<forall>h\<in>set hs. \<forall>i. h \<noteq> Found i"
    by simp_all
  from Cons.IH [OF rest, of "happen S P batch s h"] quiet_happen [OF q, of S P batch s]
  show ?case by simp
qed

lemma all_answered:
  assumes "n \<in> set ns" "\<forall>m\<in>set ns. m < length (cs_requests s)"
  shows "has_settled (foldl (happen S P batch) s (map Answered ns)) n"
  using assms
proof (induction ns arbitrary: s)
  case Nil
  then show ?case by simp
next
  case (Cons m ms)
  have len: "length (cs_requests (happen S P batch s (Answered m))) = length (cs_requests s)"
    by (rule quiet_happen(2)) simp
  show ?case
  proof (cases "m = n")
    case True
    from Cons.prems(2) have "n < length (cs_requests s)" using True by simp
    from answered_settles [OF this, of S P batch] True
    have "has_settled (happen S P batch s (Answered m)) n" by simp
    then show ?thesis by (simp add: foldl_settled)
  next
    case False
    with Cons.prems(1) have "n \<in> set ms" by simp
    moreover from Cons.prems(2) len
    have "\<forall>k\<in>set ms. k < length (cs_requests (happen S P batch s (Answered m)))" by simp
    ultimately show ?thesis using Cons.IH by simp
  qed
qed

text \<open>
  When the join of a batch returns, every update with a city has been served, by an
  error of its own call or by a promise that has settled.
\<close>

lemma run_batch_state:
  "calls_inv (run_batch S P batch) \<and> batch_inv S P batch (run_batch S P batch) \<and>
   (\<forall>i city. i < length batch \<and> update_city S P (batch ! i) = Some city \<longrightarrow>
      has_called (run_batch S P batch) i) \<and>
   (\<forall>n < length (cs_requests (run_batch S P batch)). has_settled (run_batch S P batch) n)"
proof -
  define started where "started = foldl (step P) initial_calls (starts S P batch)"
  define scheduled where "scheduled = foldl (happen S P batch) started (schedule S batch)"
  define called where
    "called = foldl (happen S P batch) scheduled (map Found [0..<length batch])"
  define answered where
    "answered = foldl (happen S P batch) called (map Answered [0..<length (cs_requests called)])"
  define final where
    "final = foldl (happen S P batch) answered
               (map Continued [0..<length (cs_requests called)])"
  have run: "run_batch S P batch = final"
    by (simp add: run_batch_def Let_def started_def scheduled_def called_def answered_def
          final_def)
  have i1: "calls_inv started \<and> batch_inv S P batch started"
    unfolding started_def
    by (intro starts_inv ballI starts_calls calls_inv_initial batch_inv_initial)
  then have i2: "calls_inv scheduled \<and> batch_inv S P batch scheduled"
    unfolding scheduled_def by (intro happen_inv_foldl) simp_all
  then have i3: "calls_inv called \<and> batch_inv S P batch called"
    unfolding called_def by (intro happen_inv_foldl) simp_all
  then have i4: "calls_inv answered \<and> batch_inv S P batch answered"
    unfolding answered_def by (intro happen_inv_foldl) simp_all
  then have i5: "calls_inv final \<and> batch_inv S P batch final"
    unfolding final_def by (intro happen_inv_foldl) simp_all
  have c3: "has_called called i"
    if "i < length batch" "update_city S P (batch ! i) = Some city" for i city
    unfolding called_def using that by (intro all_found [where city = city]) simp_all
  have c5: "has_called final i"
    if "i < length batch" "update_city S P (batch ! i) = Some city" for i city
    unfolding final_def answered_def
    by (intro foldl_called c3 [OF that])
  have l4: "length (cs_requests answered) = length (cs_requests called)"
    unfolding answered_def using quiet_foldl [of "map Answered [0..<length (cs_requests called)]"]
    by auto
  have l5: "length (cs_requests final) = length (cs_requests answered)"
    unfolding final_def using quiet_foldl [of "map Continued [0..<length (cs_requests called)]"]
    by auto
  have s4: "has_settled answered n" if "n < length (cs_requests called)" for n
    unfolding answered_def using that by (intro all_answered) simp_all
  have s5: "has_settled final n" if "n < length (cs_requests final)" for n
    unfolding final_def using that l4 l5 by (intro foldl_settled s4) simp
  from i5 c5 s5 show ?thesis unfolding run by blast
qed

lemma received_value:
  "cs_returned s i = Some (Inr n) \<Longrightarrow> n < length (cs_requests s) \<Longrightarrow>
   received s i = req_value (cs_requests s ! n)"
  by (simp add: received_def)

lemma run_batch_received:
  assumes i: "i < length batch" and c: "update_city S P (batch ! i) = Some city"
  shows "\<exists>j<length batch. \<exists>cj. update_city S P (batch ! j) = Some cj \<and>
           cityKey P cj = cityKey P city \<and>
           received (run_batch S P batch) i = Some (own_fetch S P cj)"
proof -
  let ?s = "run_batch S P batch"
  from run_batch_state [of S P batch]
  have b: "batch_inv S P batch ?s"
    and called: "has_called ?s i"
    and settled: "\<forall>n < length (cs_requests ?s). has_settled ?s n"
    using i c by blast+
  from called obtain x where x: "cs_returned ?s i = Some x"
    by (auto simp: has_called_def)
  show ?thesis
  proof (cases x)
    case (Inl e)
    with x b obtain city' where
      "update_city S P (batch ! i) = Some city'" "own_fetch S P city' = Inl e"
      unfolding batch_inv_def by blast
    with c have "own_fetch S P city = Inl e" by simp
    moreover from x Inl have "received ?s i = Some (Inl e)" by (simp add: received_def)
    ultimately show ?thesis using i c by auto
  next
    case (Inr n)
    with x b have n: "n < length (cs_requests ?s)"
      and k: "\<exists>city'. update_city S P (batch ! i) = Some city' \<and>
                cityKey P city' = Inr (req_key (cs_requests ?s ! n))"
      unfolding batch_inv_def by blast+
    from k c have key: "cityKey P city = Inr (req_key (cs_requests ?s ! n))" by simp
    from b n have ok: "request_ok S P batch (cs_requests ?s ! n)"
      by (simp add: batch_inv_def)
    from settled n obtain v where v: "req_value (cs_requests ?s ! n) = Some v"
      by (auto simp: has_settled_def)
    with ok have own: "v = own_fetch S P (req_city (cs_requests ?s ! n))"
      by (simp add: request_ok_def)
    from x Inr n v have "received ?s i = Some v" by (simp add: received_value)
    with ok own key show ?thesis
      unfolding request_ok_def by auto
  qed
qed

subsection \<open>One update of a batch\<close>

lemma update_city_geo: "update_city S P favorite = geo_resolution S P favorite"
  by (auto simp: update_city_def geo_resolution_def getGeoDataForCity_def fulfils_def
        split: prod.splits list.splits sum.splits)

lemma over_indices: "map (\<lambda>i. F (b ! i)) [0..<length b] = map F b"
proof -
  have "map (\<lambda>i. F (b ! i)) [0..<length b] = map F (map (\<lambda>i. b ! i) [0..<length b])"
    by (simp add: o_def)
  then show ?thesis by (simp add: map_nth)
qed

lemma count_over_indices:
  "length (filter (\<lambda>i. p (b ! i)) [0..<length b]) = length (filter p b)"
proof -
  have "length (filter p (map (\<lambda>i. b ! i) [0..<length b])) =
        length (filter (\<lambda>i. p (b ! i)) [0..<length b])"
    by (simp add: filter_map o_def)
  then show ?thesis by (simp add: map_nth)
qed

text \<open>What \<open>fetchWeatherFromApi\<close> has yielded decides how an update ends.\<close>

lemma fetch_and_save_result:
  "fst (fetch_and_save S P favorite city fetched) = Inr True \<longleftrightarrow>
     (\<exists>weatherData. fetched = Some (Inr weatherData) \<and>
        fulfils (upsertItem S (save_input P (favoriteData_of favorite weatherData))))"
  by (auto simp: fetch_and_save_def saveFavoriteCity_def fulfils_def Let_def
        split: option.splits sum.splits)

lemma fetch_and_save_effects:
  "snd (fetch_and_save S P favorite city fetched) =
     FetchWeather city #
     (case fetched of
        Some (Inr weatherData) \<Rightarrow>
          [UpsertItem (save_input P (favoriteData_of favorite weatherData))]
      | other \<Rightarrow> [])"
  by (auto simp: fetch_and_save_def saveFavoriteCity_def Let_def
        split: option.splits sum.splits)

lemma update_favorite_result:
  "fst (update_favorite S P batch s i) = succeeds_with S P (batch ! i) (received s i)"
proof -
  obtain lat lon country where g: "metadata_geo P (batch ! i) = (lat, lon, country)"
    by (cases "metadata_geo P (batch ! i)") auto
  have fs: "(case fetch_and_save S P f c fetched of
               (Inl e, effects) \<Rightarrow> False | (Inr b, effects) \<Rightarrow> b) =
            (case fetched of
               Some (Inr weatherData) \<Rightarrow>
                 fulfils (upsertItem S (save_input P (favoriteData_of f weatherData)))
             | other \<Rightarrow> False)" for f c fetched
    by (auto simp: fetch_and_save_def saveFavoriteCity_def fulfils_def Let_def
          split: option.splits sum.splits)
  have uf: "fst (update_favorite S P batch s i) =
            (case update_try S P batch s i of (Inl e, effects) \<Rightarrow> False | (Inr b, effects) \<Rightarrow> b)"
    by (simp add: update_favorite_def split: prod.splits sum.splits)
  show ?thesis
  proof (cases "truthy lat \<and> truthy lon")
    case True
    with g have "update_try S P batch s i =
                 fetch_and_save S P (batch ! i) (city_for (batch ! i) lat lon country) (received s i)"
      by (simp add: update_try_def Let_def)
    moreover from g True have "geo_resolution S P (batch ! i) =
                               Some (city_for (batch ! i) lat lon country)"
      by (simp add: geo_resolution_def)
    ultimately show ?thesis
      unfolding uf succeeds_with_def using fs by simp
  next
    case False
    show ?thesis
    proof (cases "getGeoDataForCity S P (item_name (batch ! i))")
      case None
      with g False have "update_try S P batch s i =
                         (Inr False, [SearchCities (item_name (batch ! i))])"
        by (auto simp: update_try_def Let_def)
      moreover from g False None have "geo_resolution S P (batch ! i) = None"
        using update_city_geo [of S P "batch ! i"] by (auto simp: update_city_def)
      ultimately show ?thesis unfolding uf succeeds_with_def by simp
    next
      case (Some found)
      let ?c = "city_for (batch ! i) (city_lat found) (city_lon found) (city_country found)"
      from g False Some have "update_try S P batch s i =
         (case fetch_and_save S P (batch ! i) ?c (received s i) of
            (r, effects) \<Rightarrow> (r, SearchCities (item_name (batch ! i)) # effects))"
        by (auto simp: update_try_def Let_def)
      then have "(case update_try S P batch s i of
                    (Inl e, effects) \<Rightarrow> False | (Inr b, effects) \<Rightarrow> b) =
                 (case fetch_and_save S P (batch ! i) ?c (received s i) of
                    (Inl e, effects) \<Rightarrow> False | (Inr b, effects) \<Rightarrow> b)"
        by (simp split: prod.splits sum.splits)
      moreover from g False Some have "geo_resolution S P (batch ! i) = Some ?c"
        using update_city_geo [of S P "batch ! i"] by (auto simp: update_city_def)
      ultimately show ?thesis
        unfolding uf succeeds_with_def using fs by simp
    qed
  qed
qed

lemma update_favorite_effects:
  "snd (update_favorite S P batch s i) = snd (update_try S P batch s i)"
  by (simp add: update_favorite_def split: prod.splits sum.splits)

lemma task_events_eq:
  "task_events S P batch s i =
     attempt S P (batch ! i) @
     (case geo_resolution S P (batch ! i) of
        None \<Rightarrow> []
      | Some city \<Rightarrow>
          (case received s i of
             Some (Inr weatherData) \<Rightarrow>
               [Task (batch ! i)
                  (UpsertItem (save_input P (favoriteData_of (batch ! i) weatherData)))]
           | other \<Rightarrow> []))"
proof -
  obtain lat lon country where g: "metadata_geo P (batch ! i) = (lat, lon, country)"
    by (cases "metadata_geo P (batch ! i)") auto
  have tail: "map (Task f) (case fetched of
                 Some (Inr weatherData) \<Rightarrow> [UpsertItem (save_input P (favoriteData_of f weatherData))]
               | other \<Rightarrow> []) =
              (case fetched of
                 Some (Inr weatherData) \<Rightarrow>
                   [Task f (UpsertItem (save_input P (favoriteData_of f weatherData)))]
               | other \<Rightarrow> [])" for f fetched
    by (simp split: option.splits sum.splits)
  show ?thesis
  proof (cases "truthy lat \<and> truthy lon")
    case True
    with g have "update_try S P batch s i =
                 fetch_and_save S P (batch ! i) (city_for (batch ! i) lat lon country) (received s i)"
      by (simp add: update_try_def Let_def)
    moreover from g True have "geo_resolution S P (batch ! i) =
                               Some (city_for (batch ! i) lat lon country)"
      by (simp add: geo_resolution_def)
    ultimately show ?thesis
      using g True
      by (simp add: task_events_def update_favorite_effects fetch_and_save_effects attempt_def
            tail)
  next
    case False
    show ?thesis
    proof (cases "getGeoDataForCity S P (item_name (batch ! i))")
      case None
      with g False have "update_try S P batch s i =
                         (Inr False, [SearchCities (item_name (batch ! i))])"
        by (auto simp: update_try_def Let_def)
      moreover from g False None have "geo_resolution S P (batch ! i) = None"
        using update_city_geo [of S P "batch ! i"] by (auto simp: update_city_def)
      ultimately show ?thesis
        using g False
        by (auto simp: task_events_def update_favorite_effects attempt_def)
    next
      case (Some found)
      let ?c = "city_for (batch ! i) (city_lat found) (city_lon found) (city_country found)"
      from g False Some have "update_try S P batch s i =
         (case fetch_and_save S P (batch ! i) ?c (received s i) of
            (r, effects) \<Rightarrow> (r, SearchCities (item_name (batch ! i)) # effects))"
        by (auto simp: update_try_def Let_def)
      then have "snd (update_try S P batch s i) =
                 SearchCities (item_name (batch ! i)) #
                 snd (fetch_and_save S P (batch ! i) ?c (received s i))"
        by (simp split: prod.splits)
      moreover from g False Some have "geo_resolution S P (batch ! i) = Some ?c"
        using update_city_geo [of S P "batch ! i"] by (auto simp: update_city_def)
      ultimately show ?thesis
        using g False
        by (auto simp: task_events_def update_favorite_effects fetch_and_save_effects
              attempt_def tail)
    qed
  qed
qed

subsection \<open>The updates of a batch\<close>

lemma batch_successes:
  "length (filter is_success (batch_results S P b)) =
   length (filter (\<lambda>i. succeeds_with S P (b ! i) (obtained S P b i)) [0..<length b])"
  by (simp add: batch_results_def settle_update_def filter_map o_def update_favorite_result
        obtained_def)

lemma attempt_no_upsert: "filter (\<lambda>e. \<not> is_upsert e) (attempt S P f) = attempt S P f"
  by (simp add: attempt_def split: prod.splits option.splits)

lemma task_attempt:
  "filter (\<lambda>e. \<not> is_upsert e) (task_events S P b s i) = attempt S P (b ! i)"
  by (simp add: task_events_eq attempt_no_upsert split: option.splits sum.splits)

lemma batch_attempts:
  "filter (\<lambda>e. \<not> is_upsert e) (batch_events S P b) = concat (map (attempt S P) b)"
proof -
  have "filter (\<lambda>e. \<not> is_upsert e) (batch_events S P b) =
        concat (map (\<lambda>i. attempt S P (b ! i)) [0..<length b])"
    by (simp add: batch_events_def filter_concat o_def task_attempt)
  then show ?thesis by (simp only: over_indices)
qed

lemma attempt_touched: "set (touched (attempt S P f)) \<subseteq> {f}"
  by (auto simp: attempt_def touched_def split: prod.splits option.splits if_splits)

lemma touched_append: "touched (xs @ ys) = touched xs @ touched ys"
  by (simp add: touched_def)

lemma task_touched: "set (touched (task_events S P b s i)) \<subseteq> {b ! i}"
  using attempt_touched [of S P "b ! i"]
  by (auto simp: task_events_eq touched_append touched_def split: option.splits sum.splits)

lemma touched_concat: "set (touched (concat xss)) = (\<Union>xs\<in>set xss. set (touched xs))"
  by (induction xss) (simp_all add: touched_append, simp add: touched_def)

lemma batch_touched: "set (touched (batch_events S P b)) \<subseteq> set b"
proof
  fix f assume "f \<in> set (touched (batch_events S P b))"
  then obtain i where "i < length b" "f \<in> set (touched (task_events S P b (run_batch S P b) i))"
    by (auto simp: batch_events_def touched_concat)
  with task_touched [of S P b "run_batch S P b" i] show "f \<in> set b" by auto
qed

text \<open>Upserts are no fetches, and an update makes at most one fetch.\<close>

lemma fetches_not_upsert:
  "fetches_for P k trace = fetches_for P k (filter (\<lambda>e. \<not> is_upsert e) trace)"
proof (induction trace)
  case Nil
  show ?case by (simp add: fetches_for_def)
next
  case (Cons e trace)
  have "is_upsert e \<Longrightarrow> fetch_key P e = None"
    by (cases "(P, e)" rule: fetch_key.cases) simp_all
  with Cons show ?case by (auto simp: fetches_for_def)
qed

lemma attempt_fetches:
  "length (fetches_for P k (attempt S P f)) \<le> (if item_key P f = k then 1 else 0)"
  by (simp add: attempt_def fetches_for_def split: prod.splits option.splits)

lemma fetches_append:
  "fetches_for P k (xs @ ys) = fetches_for P k xs @ fetches_for P k ys"
  by (simp add: fetches_for_def)

lemma fetches_distinct:
  "distinct (map (item_key P) fs) \<Longrightarrow>
   length (fetches_for P k (concat (map (attempt S P) fs))) \<le> 1"
proof (induction fs)
  case Nil
  then show ?case by (simp add: fetches_for_def)
next
  case (Cons f fs)
  have none: "\<forall>g\<in>set gs. item_key P g \<noteq> k \<Longrightarrow>
              fetches_for P k (concat (map (attempt S P) gs)) = []" for gs
  proof (induction gs)
    case Nil
    then show ?case by (simp add: fetches_for_def)
  next
    case (Cons g gs)
    from attempt_fetches [of P k S g] Cons.prems have "fetches_for P k (attempt S P g) = []"
      by simp
    with Cons show ?case by (simp add: fetches_append)
  qed
  show ?case
  proof (cases "item_key P f = k")
    case True
    from Cons.prems have "item_key P f \<notin> item_key P ` set fs" by simp
    with True have "\<forall>g\<in>set fs. item_key P g \<noteq> k" by blast
    then have "fetches_for P k (concat (map (attempt S P) fs)) = []" by (rule none)
    with attempt_fetches [of P k S f] True show ?thesis by (simp add: fetches_append)
  next
    case False
    with attempt_fetches [of P k S f] have "fetches_for P k (attempt S P f) = []" by simp
    with Cons show ?thesis by (simp add: fetches_append)
  qed
qed

text \<open>
  In a batch whose cache keys are apart every update is served by a request of its own.
\<close>

lemma apart_obtained:
  assumes apart: "keys_apart S P b" and i: "i < length b"
    and c: "geo_resolution S P (b ! i) = Some city"
  shows "obtained S P b i = Some (own_fetch S P city)"
proof -
  from c have "update_city S P (b ! i) = Some city" by (simp add: update_city_geo)
  from run_batch_received [OF i this] obtain j cj where
    j: "j < length b" and cj: "geo_resolution S P (b ! j) = Some cj"
    and k: "cityKey P cj = cityKey P city"
    and r: "obtained S P b i = Some (own_fetch S P cj)"
    by (auto simp: update_city_geo obtained_def)
  show ?thesis
  proof (cases "cityKey P city")
    case (Inl e)
    with k have "own_fetch S P cj = Inl e" "own_fetch S P city = Inl e"
      by (simp_all add: own_fetch_threw)
    with r show ?thesis by simp
  next
    case (Inr key)
    with c cj k have "own_key S P (b ! i) = Some key" "own_key S P (b ! j) = Some key"
      by (simp_all add: own_key_def)
    with apart i j have "b ! j = b ! i"
      unfolding keys_apart_def by (metis nth_mem option.distinct(1))
    with c cj have "cj = city" by simp
    with r show ?thesis by simp
  qed
qed

lemma apart_events:
  assumes "keys_apart S P b"
  shows "batch_events S P b = concat (map (own_update S P) b)"
proof -
  have "task_events S P b (run_batch S P b) i = own_update S P (b ! i)" if "i < length b" for i
  proof (cases "geo_resolution S P (b ! i)")
    case None
    then show ?thesis by (simp add: task_events_eq own_update_def)
  next
    case (Some city)
    from apart_obtained [OF assms that Some]
    have "received (run_batch S P b) i = Some (own_fetch S P city)"
      by (simp add: obtained_def)
    with Some show ?thesis
      by (simp add: task_events_eq own_update_def split: sum.splits)
  qed
  then have "map (task_events S P b (run_batch S P b)) [0..<length b] =
             map (\<lambda>i. own_update S P (b ! i)) [0..<length b]"
    by simp
  then show ?thesis
    by (simp only: batch_events_def over_indices)
qed

lemma apart_successes:
  assumes "keys_apart S P b"
  shows "length (filter is_success (batch_results S P b)) =
         length (filter (pipeline_succeeds S P) b)"
proof -
  have "succeeds_with S P (b ! i) (obtained S P b i) = pipeline_succeeds S P (b ! i)"
    if "i < length b" for i
  proof (cases "geo_resolution S P (b ! i)")
    case None
    then show ?thesis by (simp add: succeeds_with_def pipeline_succeeds_def)
  next
    case (Some city)
    from apart_obtained [OF assms that Some] Some show ?thesis
      by (simp add: succeeds_with_def pipeline_succeeds_def split: sum.splits)
  qed
  then have "filter (\<lambda>i. succeeds_with S P (b ! i) (obtained S P b i)) [0..<length b] =
             filter (\<lambda>i. pipeline_succeeds S P (b ! i)) [0..<length b]"
    by (intro filter_cong) simp_all
  then show ?thesis
    by (simp only: batch_successes count_over_indices)
qed

subsection \<open>The loop over the batches\<close>

text \<open>
  The loop is unfolded one batch at a time; its count and its record of calls then
  follow by induction along the loop.
\<close>

lemma chop3_drop:
  "i < length xs \<Longrightarrow> chop3 (drop i xs) = take 3 (drop i xs) # chop3 (drop (i + 3) xs)"
proof -
  assume "i < length xs"
  then obtain y ys where d: "drop i xs = y # ys"
    by (cases "drop i xs") auto
  have "drop (i + 3) xs = drop 3 (drop i xs)"
    by (simp add: add.commute)
  with d show ?thesis by simp
qed

lemma chop3_empty_iff: "chop3 xs = [] \<longleftrightarrow> xs = []"
  by (cases xs) auto

lemma slice_batch: "slice xs i (i + batchSize) = take 3 (drop i xs)"
  by (simp add: slice_def batchSize_def)

lemma batch_loop_unfold:
  "i < length favorites \<Longrightarrow>
   batch_loop S P favorites i successCount trace =
   batch_loop S P favorites (i + batchSize)
     (successCount + length (filter is_success (batch_results S P (take 3 (drop i favorites)))))
     (trace @ batch_events S P (take 3 (drop i favorites))
            @ (if i + batchSize < length favorites then [Sleep 1000] else []))"
  by (subst batch_loop.simps) (simp only: Let_def slice_batch if_True)

lemma batch_loop_stop:
  "\<not> i < length favorites \<Longrightarrow>
   batch_loop S P favorites i successCount trace = (successCount, trace)"
  by (subst batch_loop.simps) simp

lemma batch_loop_count:
  "fst (batch_loop S P favorites i successCount trace) =
     successCount +
     sum_list (map (\<lambda>b. length (filter is_success (batch_results S P b)))
                 (chop3 (drop i favorites)))"
proof (induction S P favorites i successCount trace rule: batch_loop.induct)
  case (1 S P favorites i successCount trace)
  show ?case
  proof (cases "i < length favorites")
    case True
    have ch: "chop3 (drop i favorites) =
              take 3 (drop i favorites) # chop3 (drop (i + batchSize) favorites)"
      using chop3_drop [OF True] by (simp add: batchSize_def)
    from "1.IH" [OF True refl refl refl refl] show ?thesis
      by (simp only: batch_loop_unfold [OF True] slice_batch ch list.map sum_list.Cons
                     add.assoc)
  next
    case False
    then show ?thesis by (simp add: batch_loop_stop)
  qed
qed

lemma batch_trace_cons:
  "batch_trace calls (b # bs) =
     calls b @ (if bs = [] then [] else [Sleep 1000]) @ batch_trace calls bs"
  by (cases bs) auto

lemma batch_loop_trace:
  "snd (batch_loop S P favorites i successCount trace) =
     trace @ batch_trace (batch_events S P) (chop3 (drop i favorites))"
proof (induction S P favorites i successCount trace rule: batch_loop.induct)
  case (1 S P favorites i successCount trace)
  show ?case
  proof (cases "i < length favorites")
    case True
    have more: "(i + batchSize < length favorites) = (chop3 (drop (i + batchSize) favorites) \<noteq> [])"
      by (auto simp: chop3_empty_iff)
    have ch: "chop3 (drop i favorites) =
              take 3 (drop i favorites) # chop3 (drop (i + batchSize) favorites)"
      using chop3_drop [OF True] by (simp add: batchSize_def)
    have "batch_trace (batch_events S P) (chop3 (drop i favorites)) =
          batch_events S P (take 3 (drop i favorites))
          @ (if i + batchSize < length favorites then [Sleep 1000] else [])
          @ batch_trace (batch_events S P) (chop3 (drop (i + batchSize) favorites))"
      unfolding ch batch_trace_cons more by simp
    with "1.IH" [OF True refl refl refl refl] show ?thesis
      by (simp only: batch_loop_unfold [OF True] slice_batch append_assoc)
  next
    case False
    then show ?thesis by (simp add: batch_loop_stop)
  qed
qed

lemma concat_chop3: "concat (chop3 xs) = xs"
  by (induction xs rule: chop3.induct) auto



lemma updateAllFavorites_closed_form:
  assumes "listItems S = Inr allItems"
  shows "updateAllFavorites S P =
           (Inr (sum_list (map (\<lambda>b. length (filter is_success (batch_results S P b)))
                            (chop3 (favorites_of P allItems)))),
            ListItems # batch_trace (batch_events S P) (chop3 (favorites_of P allItems)))"
proof (cases "favorites_of P allItems = []")
  case True
  with assms show ?thesis
    by (simp add: updateAllFavorites_def updateAllFavorites_try_def)
next
  case False
  obtain n t where bl: "batch_loop S P (favorites_of P allItems) 0 0 [ListItems] = (n, t)"
    by (cases "batch_loop S P (favorites_of P allItems) 0 0 [ListItems]") auto
  from bl batch_loop_count [of S P "favorites_of P allItems" 0 0 "[ListItems]"]
  have n: "n = sum_list (map (\<lambda>b. length (filter is_success (batch_results S P b)))
                           (chop3 (favorites_of P allItems)))"
    by simp
  from bl batch_loop_trace [of S P "favorites_of P allItems" 0 0 "[ListItems]"]
  have t: "t = ListItems # batch_trace (batch_events S P) (chop3 (favorites_of P allItems))"
    by simp
  from assms False bl n t show ?thesis
    by (simp add: updateAllFavorites_def updateAllFavorites_try_def Let_def)
qed

text \<open>Properties of the calls of the batches carry over to the record of the run.\<close>

lemma batch_trace_same:
  "(\<And>b. b \<in> set bs \<Longrightarrow> calls b = calls' b) \<Longrightarrow> batch_trace calls bs = batch_trace calls' bs"
  by (induction calls bs rule: batch_trace.induct) simp_all

lemma batch_trace_filter:
  "\<not> p (Sleep 1000) \<Longrightarrow>
   filter p (batch_trace calls bs) = filter p (concat (map calls bs))"
  by (induction calls bs rule: batch_trace.induct) simp_all

lemma batch_trace_filter_keep:
  "p (Sleep 1000) \<Longrightarrow>
   filter p (batch_trace calls bs) = batch_trace (\<lambda>b. filter p (calls b)) bs"
  by (induction calls bs rule: batch_trace.induct) simp_all

lemma batch_trace_touched:
  "set (touched (batch_trace calls bs)) = (\<Union>b\<in>set bs. set (touched (calls b)))"
proof (induction calls bs rule: batch_trace.induct)
  case (1 calls)
  show ?case by (simp add: touched_def)
next
  case (2 calls b)
  show ?case by simp
next
  case (3 calls b b' bs)
  have "touched (Sleep 1000 # rest) = touched rest" for rest
    by (simp add: touched_def)
  with 3 show ?case by (simp add: touched_append)
qed

lemma sum_counts: "sum_list (map (\<lambda>b. length (filter p b)) bs) = length (filter p (concat bs))"
  by (induction bs) simp_all

subsection \<open>The map of the deduplication, step by step\<close>

lemma date_gt_irrefl: "\<not> date_gt P a a"
  by (simp add: date_gt_def split: option.splits)

lemma date_gt_replace:
  "date_gt P a b \<Longrightarrow> \<not> date_gt P x b \<Longrightarrow> \<not> date_gt P x a"
  by (auto simp: date_gt_def split: option.splits)

lemma cityMap_inv_empty: "cityMap_inv P [] []"
  by (simp add: cityMap_inv_def)

lemma cityMap_inv_step:
  assumes "cityMap_inv P items m"
  shows "cityMap_inv P (items @ [x]) (cityMap_step P m x)"
proof (cases "map_of m (item_key P x)")
  case None
  then have st: "cityMap_step P m x = AList.update (item_key P x) x m"
    by (simp add: cityMap_step_def)
  from None assms have fresh: "\<forall>y\<in>set items. item_key P y \<noteq> item_key P x"
    by (auto simp: cityMap_inv_def)
  show ?thesis
    unfolding st cityMap_inv_def
    using assms fresh
    by (auto simp: cityMap_inv_def distinct_update update_conv' date_gt_irrefl)
next
  case (Some old)
  show ?thesis
  proof (cases "date_gt P (item_updatedAt x) (item_updatedAt old)")
    case True
    with Some have st: "cityMap_step P m x = AList.update (item_key P x) x m"
      by (simp add: cityMap_step_def)
    from assms Some have old: "\<forall>y\<in>set items. item_key P y = item_key P x \<longrightarrow>
        \<not> date_gt P (item_updatedAt y) (item_updatedAt old)"
      by (auto simp: cityMap_inv_def)
    with True have "\<forall>y\<in>set items. item_key P y = item_key P x \<longrightarrow>
        \<not> date_gt P (item_updatedAt y) (item_updatedAt x)"
      using date_gt_replace by blast
    then show ?thesis
      unfolding st cityMap_inv_def
      using assms
      by (auto simp: cityMap_inv_def distinct_update update_conv' date_gt_irrefl)
  next
    case False
    with Some have st: "cityMap_step P m x = m"
      by (simp add: cityMap_step_def)
    show ?thesis
      unfolding st cityMap_inv_def
      using assms Some False
      by (auto simp: cityMap_inv_def simp del: map_of_eq_Some_iff)
  qed
qed

lemma build_cityMap_inv: "cityMap_inv P items (build_cityMap P items)"
proof (induction items rule: rev_induct)
  case Nil
  show ?case by (simp add: build_cityMap_def cityMap_inv_empty)
next
  case (snoc x xs)
  then show ?case
    using cityMap_inv_step [of P xs "build_cityMap P xs" x]
    by (simp add: build_cityMap_def)
qed

lemma filter_key_one:
  "distinct (map f xs) \<Longrightarrow> k \<in> f ` set xs \<Longrightarrow> length (filter (\<lambda>x. f x = k) xs) = 1"
proof (induction xs)
  case Nil
  then show ?case by simp
next
  case (Cons a xs)
  show ?case
  proof (cases "f a = k")
    case True
    from Cons.prems have "f a \<notin> f ` set xs" by simp
    with True have "\<forall>x\<in>set xs. f x \<noteq> k" by blast
    then have "filter (\<lambda>x. f x = k) xs = []"
      by (simp add: filter_empty_conv)
    with True show ?thesis by simp
  next
    case False
    with Cons show ?thesis by auto
  qed
qed

lemma cityMap_values:
  assumes "cityMap_inv P items m"
  shows "map (item_key P) (map snd m) = map fst m"
proof -
  have "\<forall>p\<in>set m. item_key P (snd p) = fst p"
  proof
    fix p assume "p \<in> set m"
    with assms have "map_of m (fst p) = Some (snd p)"
      by (simp add: cityMap_inv_def)
    with assms show "item_key P (snd p) = fst p"
      unfolding cityMap_inv_def by blast
  qed
  then show ?thesis by simp
qed

subsection \<open>Deduplication of the favourites\<close>

lemma favorites_inv:
  "cityMap_inv P (validItems P allItems) (build_cityMap P (validItems P allItems))"
  by (rule build_cityMap_inv)

lemma favorites_subset: "set (favorites_of P allItems) \<subseteq> set (validItems P allItems)"
proof
  fix c assume "c \<in> set (favorites_of P allItems)"
  then obtain k where "(k, c) \<in> set (build_cityMap P (validItems P allItems))"
    by (auto simp: favorites_of_def)
  with favorites_inv [of P allItems]
  have "map_of (build_cityMap P (validItems P allItems)) k = Some c"
    by (simp add: cityMap_inv_def)
  with favorites_inv [of P allItems] show "c \<in> set (validItems P allItems)"
    unfolding cityMap_inv_def by blast
qed

lemma favorites_keys:
  "map (item_key P) (favorites_of P allItems) =
   map fst (build_cityMap P (validItems P allItems))"
  using cityMap_values [OF favorites_inv] by (simp add: favorites_of_def)

lemma favorites_distinct: "distinct (map (item_key P) (favorites_of P allItems))"
  using favorites_inv [of P allItems] by (simp add: favorites_keys cityMap_inv_def)

lemma favorites_one_per_key:
  assumes "x \<in> set (validItems P allItems)"
  shows "length (filter (\<lambda>c. item_key P c = item_key P x) (favorites_of P allItems)) = 1"
proof -
  from assms favorites_inv [of P allItems]
  have "map_of (build_cityMap P (validItems P allItems)) (item_key P x) \<noteq> None"
    unfolding cityMap_inv_def by blast
  then have "item_key P x \<in> fst ` set (build_cityMap P (validItems P allItems))"
    by (simp add: map_of_eq_None_iff)
  then have "item_key P x \<in> item_key P ` set (favorites_of P allItems)"
    using favorites_keys [of P allItems] by (metis list.set_map)
  with favorites_distinct [of P allItems] show ?thesis by (simp add: filter_key_one)
qed

lemma favorites_newest:
  assumes "c \<in> set (favorites_of P allItems)" and "x \<in> set (validItems P allItems)"
    and "item_key P x = item_key P c"
  shows "\<not> date_gt P (item_updatedAt x) (item_updatedAt c)"
proof -
  from assms(1) obtain k where "(k, c) \<in> set (build_cityMap P (validItems P allItems))"
    by (auto simp: favorites_of_def)
  with favorites_inv [of P allItems]
  have m: "map_of (build_cityMap P (validItems P allItems)) k = Some c"
    by (simp add: cityMap_inv_def)
  with favorites_inv [of P allItems] have "item_key P c = k"
    unfolding cityMap_inv_def by blast
  with m assms(2,3) favorites_inv [of P allItems] show ?thesis
    unfolding cityMap_inv_def by blast
qed

lemma date_gt_le:
  "\<not> date_gt P a b \<Longrightarrow> Date_parse P a = Some ta \<Longrightarrow> Date_parse P b = Some tb \<Longrightarrow> ta \<le> tb"
  by (simp add: date_gt_def)

text \<open>The key of a record that the filter keeps.\<close>

lemma kept_key:
  assumes "validItems_keep P x"
  shows "\<exists>md w. JSON_parse P (item_metadata x) = Some md \<and> get_prop md ''weatherId'' = Inr w \<and>
           item_key P x =
             (case ToString P (js_or w (JNum 0)) of
                Inl e \<Rightarrow> toLowerCase P (item_name x)
              | Inr weatherId \<Rightarrow> toLowerCase P (item_name x) @ ''-'' @ weatherId) \<and>
           (\<not> truthy w \<longrightarrow>
              item_key P x = toLowerCase P (item_name x) @ ''-'' @ Number_toString P 0)"
proof -
  from assms obtain md where md: "JSON_parse P (item_metadata x) = Some md"
    and d: "\<exists>d. get_prop md ''deleted'' = Inr d"
    by (auto simp: validItems_keep_def validItems_try_def split: option.splits if_splits sum.splits)
  from d obtain w where w: "get_prop md ''weatherId'' = Inr w"
    by (cases md) auto
  from md w have "item_key P x =
             (case ToString P (js_or w (JNum 0)) of
                Inl e \<Rightarrow> toLowerCase P (item_name x)
              | Inr weatherId \<Rightarrow> toLowerCase P (item_name x) @ ''-'' @ weatherId)"
    by (simp add: item_key_def composite_key_def andThen_def split: sum.splits)
  moreover from this have "\<not> truthy w \<Longrightarrow>
     item_key P x = toLowerCase P (item_name x) @ ''-'' @ Number_toString P 0"
    by (simp add: js_or_def)
  ultimately show ?thesis using md w by blast
qed

lemma concat_map_concat: "concat (map (\<lambda>b. concat (map f b)) bs) = concat (map f (concat bs))"
  by (induction bs) simp_all

lemma run_fetches:
  assumes "listItems S = Inr allItems"
  shows "fetches_for P k (snd (updateAllFavorites S P)) =
         fetches_for P k (concat (map (attempt S P) (favorites_of P allItems)))"
proof -
  let ?bs = "chop3 (favorites_of P allItems)"
  have "fetches_for P k (snd (updateAllFavorites S P)) =
        fetches_for P k (batch_trace (batch_events S P) ?bs)"
    using assms by (simp add: updateAllFavorites_closed_form fetches_for_def)
  also have "\<dots> = fetches_for P k (filter (\<lambda>e. \<not> is_upsert e) (batch_trace (batch_events S P) ?bs))"
    by (rule fetches_not_upsert)
  also have "filter (\<lambda>e. \<not> is_upsert e) (batch_trace (batch_events S P) ?bs) =
             batch_trace (\<lambda>b. concat (map (attempt S P) b)) ?bs"
    by (simp add: batch_trace_filter_keep batch_attempts)
  also have "fetches_for P k (batch_trace (\<lambda>b. concat (map (attempt S P) b)) ?bs) =
             fetches_for P k (concat (map (\<lambda>b. concat (map (attempt S P) b)) ?bs))"
    unfolding fetches_for_def by (rule batch_trace_filter) simp
  also have "\<dots> = fetches_for P k (concat (map (attempt S P) (favorites_of P allItems)))"
    by (simp only: concat_map_concat concat_chop3)
  finally show ?thesis .
qed

text \<open>
  Claim C1, as the code has it. For every list that the remote store returns,
  \<open>updateAllFavorites\<close> files the records that survive its filter under the key
  \<open>lowercase(name)-weatherId\<close>, with \<open>0\<close> for a \<open>weatherId\<close> that is missing or falsy, and
  under \<open>lowercase(name)\<close> alone when the \<open>weatherId\<close> has no text. For every key it keeps
  exactly one of the surviving records with that key: one than which none of them is
  newer under the comparison of the code, so that when the \<open>updatedAt\<close> of the kept
  record and of another one of the key are both dates, the kept one is the later or they
  are equal. In one run at most one weather fetch is made for a key.
\<close>

theorem dedupe_one_per_key:
  "set (favorites_of P allItems) \<subseteq> set (validItems P allItems) \<and>
   (\<forall>x\<in>set (validItems P allItems).
      length (filter (\<lambda>c. item_key P c = item_key P x) (favorites_of P allItems)) = 1) \<and>
   (\<forall>x\<in>set (validItems P allItems).
      \<exists>md w. JSON_parse P (item_metadata x) = Some md \<and> get_prop md ''weatherId'' = Inr w \<and>
        item_key P x =
          (case ToString P (js_or w (JNum 0)) of
             Inl e \<Rightarrow> toLowerCase P (item_name x)
           | Inr weatherId \<Rightarrow> toLowerCase P (item_name x) @ ''-'' @ weatherId) \<and>
        (\<not> truthy w \<longrightarrow>
           item_key P x = toLowerCase P (item_name x) @ ''-'' @ Number_toString P 0)) \<and>
   (\<forall>c\<in>set (favorites_of P allItems). \<forall>x\<in>set (validItems P allItems).
      item_key P x = item_key P c \<longrightarrow>
      \<not> date_gt P (item_updatedAt x) (item_updatedAt c) \<and>
      (\<forall>tx tc. Date_parse P (item_updatedAt x) = Some tx \<and>
               Date_parse P (item_updatedAt c) = Some tc \<longrightarrow> tx \<le> tc)) \<and>
   (listItems S = Inr allItems \<longrightarrow>
      (\<forall>key. length (fetches_for P key (snd (updateAllFavorites S P))) \<le> 1))"
proof (intro conjI ballI allI impI)
  show "set (favorites_of P allItems) \<subseteq> set (validItems P allItems)"
    by (rule favorites_subset)
next
  fix x assume "x \<in> set (validItems P allItems)"
  then show "length (filter (\<lambda>c. item_key P c = item_key P x) (favorites_of P allItems)) = 1"
    by (rule favorites_one_per_key)
next
  fix x assume "x \<in> set (validItems P allItems)"
  then have "validItems_keep P x" by (simp add: validItems_def)
  then show "\<exists>md w. JSON_parse P (item_metadata x) = Some md \<and> get_prop md ''weatherId'' = Inr w \<and>
        item_key P x =
          (case ToString P (js_or w (JNum 0)) of
             Inl e \<Rightarrow> toLowerCase P (item_name x)
           | Inr weatherId \<Rightarrow> toLowerCase P (item_name x) @ ''-'' @ weatherId) \<and>
        (\<not> truthy w \<longrightarrow>
           item_key P x = toLowerCase P (item_name x) @ ''-'' @ Number_toString P 0)"
    by (rule kept_key)
next
  fix c x
  assume "c \<in> set (favorites_of P allItems)" "x \<in> set (validItems P allItems)"
    "item_key P x = item_key P c"
  then show "\<not> date_gt P (item_updatedAt x) (item_updatedAt c)"
    by (rule favorites_newest)
next
  fix c x tx tc
  assume "c \<in> set (favorites_of P allItems)" "x \<in> set (validItems P allItems)"
    "item_key P x = item_key P c"
  then have "\<not> date_gt P (item_updatedAt x) (item_updatedAt c)"
    by (rule favorites_newest)
  moreover assume "Date_parse P (item_updatedAt x) = Some tx \<and>
                   Date_parse P (item_updatedAt c) = Some tc"
  ultimately show "tx \<le> tc" by (auto dest: date_gt_le)
next
  fix key assume "listItems S = Inr allItems"
  then have "fetches_for P key (snd (updateAllFavorites S P)) =
             fetches_for P key (concat (map (attempt S P) (favorites_of P allItems)))"
    by (rule run_fetches)
  then show "length (fetches_for P key (snd (updateAllFavorites S P))) \<le> 1"
    using fetches_distinct [OF favorites_distinct, of P key S allItems] by simp
qed

lemma ex_valid_bare:
  "validItems example_platform [paris_T1, paris_T2, paris_T3, paris_bare] =
     [paris_T1, paris_T2, paris_bare]"
  by (simp add: validItems_def validItems_keep_def validItems_try_def example_defs
        paris_bare_def)

lemma ex_keys:
  "item_key example_platform paris_T1 = ''paris-10''"
  "item_key example_platform paris_bare = ''paris-0''"
  "item_key example_platform paris_undated = ''paris-10''"
  by (simp_all add: item_key_def composite_key_def js_or_def andThen_def example_defs
        paris_bare_def paris_undated_def)

lemma ex_favs_bare:
  "favorites_of example_platform [paris_T1, paris_T2, paris_T3, paris_bare] =
     [paris_T2, paris_bare]"
  by (simp add: favorites_of_def ex_valid_bare build_cityMap_def cityMap_step_def ex_keys ex_key)
     (simp add: date_gt_def example_defs paris_bare_def)

lemma ex_geo:
  "metadata_geo example_platform (example_item i n c ''paris'' u) = (JNum 48, JNum 2, JStr ''FR'')"
  by (simp add: metadata_geo_def example_defs)

lemma ex_geo_far:
  "metadata_geo example_platform (example_item i n c ''far'' u) = (JNum 99, JNum 99, JStr ''FR'')"
  by (simp add: metadata_geo_def example_defs)

lemma ex_geo_none:
  "metadata_geo example_platform (example_item i n c ''plain'' u) =
     (JUndefined, JUndefined, JUndefined)"
  "metadata_geo example_platform (example_item i n c ''bare'' u) =
     (JUndefined, JUndefined, JUndefined)"
  by (simp_all add: metadata_geo_def example_defs)

lemma ex_attempts:
  "attempt (example_services response order) example_platform paris_T2 =
     [Task paris_T2 (FetchWeather (city_for paris_T2 (JNum 48) (JNum 2) (JStr ''FR'')))]"
  "attempt (example_services response order) example_platform paris_bare =
     [Task paris_bare (SearchCities ''Paris'')]"
  using ex_geo [of "''b''" "''Paris''" "''sunny''" "''T2''"]
        ex_geo_none(2) [of "''h''" "''Paris''" "''sunny''" "''T1''"]
  by (simp_all add: attempt_def geo_resolution_def example_services_fields
        paris_T2_def [symmetric] paris_bare_def [symmetric])
     (simp add: paris_bare_def example_item_def)

theorem dedupe_one_per_key_witness:
  "validItems example_platform [paris_T1, paris_T2, paris_T3, paris_bare] =
     [paris_T1, paris_T2, paris_bare] \<and>
   favorites_of example_platform [paris_T1, paris_T2, paris_T3, paris_bare] =
     [paris_T2, paris_bare] \<and>
   item_key example_platform paris_T1 = ''paris-10'' \<and>
   item_key example_platform paris_T2 = ''paris-10'' \<and>
   item_key example_platform paris_bare = ''paris-0'' \<and>
   Date_parse example_platform (item_updatedAt paris_T1) = Some 1 \<and>
   Date_parse example_platform (item_updatedAt paris_T2) = Some 2 \<and>
   listItems (example_services (Inr [paris_T1, paris_T2, paris_T3, paris_bare]) []) =
     Inr [paris_T1, paris_T2, paris_T3, paris_bare] \<and>
   length (fetches_for example_platform ''paris-10''
     (snd (updateAllFavorites
        (example_services (Inr [paris_T1, paris_T2, paris_T3, paris_bare]) [])
        example_platform))) = 1 \<and>
   length (fetches_for example_platform ''paris-0''
     (snd (updateAllFavorites
        (example_services (Inr [paris_T1, paris_T2, paris_T3, paris_bare]) [])
        example_platform))) = 0"
proof -
  let ?L = "[paris_T1, paris_T2, paris_T3, paris_bare]"
  let ?S = "example_services (Inr ?L) []"
  have l: "listItems ?S = Inr ?L" by (simp add: example_services_fields)
  have f: "fetches_for example_platform k (snd (updateAllFavorites ?S example_platform)) =
           fetches_for example_platform k
             (concat (map (attempt ?S example_platform) [paris_T2, paris_bare]))" for k
    using run_fetches [OF l, of example_platform k] by (simp add: ex_favs_bare)
  have f10: "length (fetches_for example_platform ''paris-10''
     (snd (updateAllFavorites ?S example_platform))) = 1"
    unfolding f by (simp add: ex_attempts fetches_for_def ex_key ex_keys)
  have f0: "length (fetches_for example_platform ''paris-0''
     (snd (updateAllFavorites ?S example_platform))) = 0"
    unfolding f by (simp add: ex_attempts fetches_for_def ex_key ex_keys)
  have d: "Date_parse example_platform (item_updatedAt paris_T1) = Some 1"
    "Date_parse example_platform (item_updatedAt paris_T2) = Some 2"
    by (simp_all add: example_defs)
  from dedupe_one_per_key [of example_platform ?L ?S]
  have "length (filter (\<lambda>c. item_key example_platform c = item_key example_platform paris_T1)
                 (favorites_of example_platform ?L)) = 1"
    by (simp add: ex_valid_bare)
  with l f10 f0 d show ?thesis
    by (simp add: ex_valid_bare ex_favs_bare ex_key ex_keys)
qed

text \<open>
  Two surviving records named Paris whose \<open>weatherId\<close> are two different objects without
  a text: the key of the template literal cannot be built for them, both are filed under
  \<open>paris\<close>, and one candidate is left for the two. And a surviving Paris whose
  \<open>updatedAt\<close> is no date, listed before one of the same key that has a date: it is the
  candidate.
\<close>

theorem unkeyed_and_undated_counterexample:
  "validItems example_platform [odd_1, odd_2] = [odd_1, odd_2] \<and>
   composite_key example_platform odd_1 = Inl TypeError \<and>
   composite_key example_platform odd_2 = Inl TypeError \<and>
   item_key example_platform odd_1 = ''paris'' \<and>
   item_key example_platform odd_2 = ''paris'' \<and>
   favorites_of example_platform [odd_1, odd_2] = [odd_1] \<and>
   validItems example_platform [paris_undated, paris_T2] = [paris_undated, paris_T2] \<and>
   item_key example_platform paris_undated = ''paris-10'' \<and>
   item_key example_platform paris_T2 = ''paris-10'' \<and>
   Date_parse example_platform (item_updatedAt paris_undated) = None \<and>
   Date_parse example_platform (item_updatedAt paris_T2) = Some 2 \<and>
   favorites_of example_platform [paris_undated, paris_T2] = [paris_undated]"
proof -
  have v1: "validItems example_platform [odd_1, odd_2] = [odd_1, odd_2]"
    by (simp add: validItems_def validItems_keep_def validItems_try_def example_defs
          odd_1_def odd_2_def)
  have c: "composite_key example_platform odd_1 = Inl TypeError"
    "composite_key example_platform odd_2 = Inl TypeError"
    by (simp_all add: composite_key_def js_or_def andThen_def example_defs odd_1_def odd_2_def)
  then have k: "item_key example_platform odd_1 = ''paris''"
    "item_key example_platform odd_2 = ''paris''"
    by (simp_all add: item_key_def) (simp_all add: example_defs odd_1_def odd_2_def)
  have f1: "favorites_of example_platform [odd_1, odd_2] = [odd_1]"
    by (simp add: favorites_of_def v1 build_cityMap_def cityMap_step_def k)
       (simp add: date_gt_def example_defs odd_1_def odd_2_def)
  have v2: "validItems example_platform [paris_undated, paris_T2] = [paris_undated, paris_T2]"
    by (simp add: validItems_def validItems_keep_def validItems_try_def example_defs
          paris_undated_def)
  have d: "Date_parse example_platform (item_updatedAt paris_undated) = None"
    "Date_parse example_platform (item_updatedAt paris_T2) = Some 2"
    by (simp_all add: example_defs paris_undated_def)
  have f2: "favorites_of example_platform [paris_undated, paris_T2] = [paris_undated]"
    by (simp add: favorites_of_def v2 build_cityMap_def cityMap_step_def ex_key ex_keys)
       (simp add: date_gt_def d)
  from v1 c k f1 v2 d f2 show ?thesis by (simp add: ex_key ex_keys)
qed

subsection \<open>Batches of three\<close>



lemma run_apart:
  assumes l: "listItems S = Inr allItems"
    and apart: "\<forall>b\<in>set (chop3 (favorites_of P allItems)). keys_apart S P b"
  shows "updateAllFavorites S P =
     (Inr (length (filter (pipeline_succeeds S P) (favorites_of P allItems))),
      ListItems # batch_trace (\<lambda>b. concat (map (own_update S P) b))
                    (chop3 (favorites_of P allItems)))"
proof -
  let ?bs = "chop3 (favorites_of P allItems)"
  have "map (\<lambda>b. length (filter is_success (batch_results S P b))) ?bs =
        map (\<lambda>b. length (filter (pipeline_succeeds S P) b)) ?bs"
    using apart by (intro map_cong refl apart_successes) simp
  then have c: "sum_list (map (\<lambda>b. length (filter is_success (batch_results S P b))) ?bs) =
                length (filter (pipeline_succeeds S P) (favorites_of P allItems))"
    by (simp only: sum_counts concat_chop3)
  have t: "batch_trace (batch_events S P) ?bs =
           batch_trace (\<lambda>b. concat (map (own_update S P) b)) ?bs"
    using apart by (intro batch_trace_same apart_events) simp
  from l c t show ?thesis by (simp add: updateAllFavorites_closed_form)
qed



text \<open>The five favourites of the specification's scenario, and the two Springfields.\<close>

lemma ex_city_for:
  "city_for (example_item i n c m u) (JNum la) (JNum lo) (JStr ''FR'') = example_city n la lo ''FR''"
  "city_for (example_item i n c m u) (JNum la) (JNum lo) (JStr ''US'') = example_city n la lo ''US''"
  by (simp_all add: city_for_def example_item_def example_city_def js_or_def)

lemma ex_city_key: "cityKey example_platform (example_city n la lo co) = Inr (n @ ''-'' @ co)"
  by (simp add: cityKey_def example_city_def andThen_def)

lemma ex_numbers:
  "example_number 48 = ''48''" "example_number 2 = ''2''" "example_number 99 = ''99''"
  "example_number 49 = ''49''" "example_number 6 = ''6''" "example_number 89 = ''89''"
  "example_number 42 = ''42''" "example_number 72 = ''72''"
  by (simp_all add: example_number_def)

lemma ex_city_text:
  "coordinates_text example_platform (example_city n la lo co) =
     Inr (example_number la, example_number lo)"
  by (simp add: coordinates_text_def example_city_def andThen_def example_platform_fields)

lemma ex_geo_us:
  "metadata_geo example_platform (example_item i n c ''illinois'' u) =
     (JNum 99, JNum 89, JStr ''US'')"
  "metadata_geo example_platform (example_item i n c ''massachusetts'' u) =
     (JNum 42, JNum 72, JStr ''US'')"
  by (simp_all add: metadata_geo_def example_defs)

lemma ex_resolution:
  "geo_resolution (example_services response order) example_platform
     (example_item i n c ''paris'' u) = Some (example_city n 48 2 ''FR'')"
  "geo_resolution (example_services response order) example_platform
     (example_item i n c ''far'' u) = Some (example_city n 99 99 ''FR'')"
  "geo_resolution (example_services response order) example_platform
     (example_item i ''metz'' c ''plain'' u) = Some (example_city ''metz'' 49 6 ''FR'')"
  "geo_resolution (example_services response order) example_platform
     (example_item i n c ''illinois'' u) = Some (example_city n 99 89 ''US'')"
  "geo_resolution (example_services response order) example_platform
     (example_item i n c ''massachusetts'' u) = Some (example_city n 42 72 ''US'')"
  by (simp_all add: geo_resolution_def ex_geo ex_geo_far ex_geo_none ex_geo_us ex_city_for
        example_services_fields)
     (simp add: metz_def example_item_def coordinates_text_def andThen_def fulfils_def
        example_platform_fields city_for_def example_city_def js_or_def)

lemma ex_own_fetch:
  "own_fetch (example_services response order) example_platform (example_city n 48 2 co) =
     Inr (example_snapshot (example_city n 48 2 co))"
  "own_fetch (example_services response order) example_platform (example_city n 49 6 co) =
     Inr (example_snapshot (example_city n 49 6 co))"
  "own_fetch (example_services response order) example_platform (example_city n 42 72 co) =
     Inr (example_snapshot (example_city n 42 72 co))"
  "own_fetch (example_services response order) example_platform (example_city n 99 lo co) =
     Inl (ApiStatus 404)"
  by (simp_all add: own_fetch_request [OF ex_city_key ex_city_text] ex_numbers
        example_services_fields example_net_fields(2) example_request example_request_404)

lemma ex_saved:
  "Task f (UpsertItem (save_input example_platform
     (favoriteData_of (example_item i n c m u) (example_snapshot (example_city n' la lo co))))) =
   Task f (if i = [] then UpsertItem \<lparr>in_id = None, in_name = n', in_content = ''json'',
                                       in_metadata = ''json''\<rparr>
           else saved_as i n')"
  by (simp add: save_input_def favoriteData_of_def example_snapshot_def example_city_def
        example_item_def example_platform_fields saved_as_def)

















subsection \<open>Failure of the run\<close>

text \<open>
  Claim C7. \<open>updateAllFavorites\<close> always returns a number. When the list query fails it
  returns \<open>0\<close>, and so it does when no favourite is left after filtering and
  deduplication; in both cases the list query is the only call it makes.
\<close>

theorem never_raises:
  "(\<exists>n. fst (updateAllFavorites S P) = Inr n) \<and>
   (listItems S = Inl e \<longrightarrow> updateAllFavorites S P = (Inr 0, [ListItems])) \<and>
   (listItems S = Inr allItems \<and> favorites_of P allItems = [] \<longrightarrow>
      updateAllFavorites S P = (Inr 0, [ListItems]))"
proof (intro conjI impI)
  show "\<exists>n. fst (updateAllFavorites S P) = Inr n"
    by (simp add: updateAllFavorites_def split: prod.splits sum.splits)
next
  assume "listItems S = Inl e"
  then show "updateAllFavorites S P = (Inr 0, [ListItems])"
    by (simp add: updateAllFavorites_def updateAllFavorites_try_def)
next
  assume "listItems S = Inr allItems \<and> favorites_of P allItems = []"
  then show "updateAllFavorites S P = (Inr 0, [ListItems])"
    by (simp add: updateAllFavorites_def updateAllFavorites_try_def)
qed

theorem never_raises_witness:
  "updateAllFavorites (example_services (Inl ApolloError) []) example_platform = (Inr 0, [ListItems]) \<and>
   favorites_of example_platform [paris_T3, paris_broken] = [] \<and>
   updateAllFavorites (example_services (Inr [paris_T3, paris_broken]) []) example_platform =
     (Inr 0, [ListItems])"
proof -
  have f: "favorites_of example_platform [paris_T3, paris_broken] = []"
    by (simp add: favorites_of_def validItems_def validItems_keep_def validItems_try_def
          build_cityMap_def example_defs)
  show ?thesis
    using never_raises [of "example_services (Inl ApolloError) []" example_platform ApolloError]
          never_raises [of "example_services (Inr [paris_T3, paris_broken]) []" example_platform _
                          "[paris_T3, paris_broken]"]
    by (simp add: example_services_fields f)
qed

subsection \<open>Records that count as absent\<close>

lemma kept_not_absent: "validItems_keep P item \<Longrightarrow> \<not> logically_absent P item"
  by (auto simp: validItems_keep_def validItems_try_def logically_absent_def metadata_deleted_def
        parse_fails_def split: option.splits if_splits sum.splits)

lemma validItems_present: "validItems P (present P allItems) = validItems P allItems"
proof -
  have "(\<not> logically_absent P x \<and> validItems_keep P x) = validItems_keep P x" for x
    using kept_not_absent by blast
  then show ?thesis by (simp add: validItems_def present_def)
qed

lemma isFavorite_not_soft_deleted:
  "isFavorite_item P cityName weatherId item \<Longrightarrow> \<not> soft_deleted P item"
  by (auto simp: isFavorite_item_def isFavorite_try_def soft_deleted_def metadata_deleted_def
        parse_fails_def andThen_def split: option.splits if_splits sum.splits)

lemma list_ex_filter_implied:
  "(\<And>x. p x \<Longrightarrow> q x) \<Longrightarrow> list_ex p (filter q xs) = list_ex p xs"
  by (induction xs) auto

lemma filter_filter_implied:
  "(\<And>x. p x \<Longrightarrow> q x) \<Longrightarrow> filter p (filter q xs) = filter p xs"
  by (induction xs) auto

lemma matching_not_soft_deleted:
  "matchingItems_keep P weatherData item \<Longrightarrow> \<not> soft_deleted P item"
  by (auto simp: matchingItems_keep_def skip_deleted_try_def soft_deleted_def metadata_deleted_def
        parse_fails_def andThen_def Let_def split: option.splits if_splits sum.splits bool.splits)

lemma isCityInFavorites_present:
  "isCityInFavorites P (Inr (not_soft_deleted P items)) cityName weatherId =
   isCityInFavorites P (Inr items) cityName weatherId"
proof -
  have "checkIfCityInFavorites P (Inr (not_soft_deleted P items)) cityName weatherId =
        checkIfCityInFavorites P (Inr items) cityName weatherId"
    unfolding checkIfCityInFavorites_def not_soft_deleted_def sum.case
    by (rule list_ex_filter_implied) (rule isFavorite_not_soft_deleted)
  then show ?thesis by (simp add: isCityInFavorites_def split: sum.splits)
qed

lemma toggle_mutations:
  assumes "isCityInFavorites P checkResponse (wd_city weatherData) (wd_weatherId weatherData)"
  shows "snd (toggleFavorite P now checkResponse (Inr items) mutate weatherData) =
         map (emptyInput P now weatherData) (matchingItems P weatherData items)"
  using assms
  by (simp add: toggleFavorite_def toggleFavorite_try_def Let_def)


text \<open>
  Claim C2, as the code has it. A record whose content is empty, whose metadata says
  deleted, or whose metadata does not parse is never a candidate of \<open>updateAllFavorites\<close>,
  and no call of a run is made for it: the candidates are those of the list without such
  records. A record whose metadata parses and whose content is empty or whose metadata
  says deleted is never matched by \<open>checkIfCityInFavorites\<close>, nor by \<open>isCityInFavorites\<close>,
  which calls it, and never in the matching set of \<open>toggleFavorite\<close>, and the mutations
  of a removal are those of the matching set: all give the same result on the list
  without such records. (For a record whose metadata does not parse they go on with the
  check on the name.)
\<close>

theorem soft_deleted_never_matched:
  "(\<forall>item\<in>set (favorites_of P allItems). \<not> logically_absent P item) \<and>
   favorites_of P (present P allItems) = favorites_of P allItems \<and>
   (listItems S = Inr allItems \<longrightarrow>
      (\<forall>item\<in>set (touched (snd (updateAllFavorites S P))). \<not> logically_absent P item)) \<and>
   checkIfCityInFavorites P (Inr (not_soft_deleted P items)) cityName weatherId =
     checkIfCityInFavorites P (Inr items) cityName weatherId \<and>
   isCityInFavorites P (Inr (not_soft_deleted P items)) cityName weatherId =
     isCityInFavorites P (Inr items) cityName weatherId \<and>
   (\<forall>item\<in>set (matchingItems P weatherData items). \<not> soft_deleted P item) \<and>
   matchingItems P weatherData (not_soft_deleted P items) = matchingItems P weatherData items \<and>
   (isCityInFavorites P checkResponse (wd_city weatherData) (wd_weatherId weatherData) \<longrightarrow>
      snd (toggleFavorite P now checkResponse (Inr items) mutate weatherData) =
        map (emptyInput P now weatherData) (matchingItems P weatherData items))"
proof (intro conjI ballI impI)
  fix item assume "item \<in> set (favorites_of P allItems)"
  with favorites_subset [of P allItems] have "validItems_keep P item"
    by (auto simp: validItems_def)
  then show "\<not> logically_absent P item" by (rule kept_not_absent)
next
  show "favorites_of P (present P allItems) = favorites_of P allItems"
    by (simp add: favorites_of_def validItems_present)
next
  fix item
  assume l: "listItems S = Inr allItems"
    and t: "item \<in> set (touched (snd (updateAllFavorites S P)))"
  from l have "snd (updateAllFavorites S P) =
               ListItems # batch_trace (batch_events S P) (chop3 (favorites_of P allItems))"
    by (simp add: updateAllFavorites_closed_form)
  with t have "item \<in> set (touched (batch_trace (batch_events S P)
                                       (chop3 (favorites_of P allItems))))"
    by (simp add: touched_def)
  then obtain b where b: "b \<in> set (chop3 (favorites_of P allItems))"
    and "item \<in> set (touched (batch_events S P b))"
    by (auto simp: batch_trace_touched)
  with batch_touched [of S P b] have "item \<in> set b" by auto
  with b have "item \<in> set (concat (chop3 (favorites_of P allItems)))" by auto
  then have "item \<in> set (favorites_of P allItems)"
    by (simp only: concat_chop3)
  with favorites_subset [of P allItems] have "validItems_keep P item"
    by (auto simp: validItems_def)
  then show "\<not> logically_absent P item" by (rule kept_not_absent)
next
  show "checkIfCityInFavorites P (Inr (not_soft_deleted P items)) cityName weatherId =
        checkIfCityInFavorites P (Inr items) cityName weatherId"
    unfolding checkIfCityInFavorites_def not_soft_deleted_def sum.case
    by (rule list_ex_filter_implied) (rule isFavorite_not_soft_deleted)
next
  show "isCityInFavorites P (Inr (not_soft_deleted P items)) cityName weatherId =
        isCityInFavorites P (Inr items) cityName weatherId"
    by (rule isCityInFavorites_present)
next
  fix item assume "item \<in> set (matchingItems P weatherData items)"
  then have "matchingItems_keep P weatherData item" by (simp add: matchingItems_def)
  then show "\<not> soft_deleted P item" by (rule matching_not_soft_deleted)
next
  show "matchingItems P weatherData (not_soft_deleted P items) = matchingItems P weatherData items"
    unfolding matchingItems_def not_soft_deleted_def
    by (rule filter_filter_implied) (rule matching_not_soft_deleted)
next
  assume "isCityInFavorites P checkResponse (wd_city weatherData) (wd_weatherId weatherData)"
  then show "snd (toggleFavorite P now checkResponse (Inr items) mutate weatherData) =
        map (emptyInput P now weatherData) (matchingItems P weatherData items)"
    by (rule toggle_mutations)
qed

lemma ex_check_scenario:
  "checkIfCityInFavorites example_platform (Inr scenario) ''Paris'' (JNum 10)"
  by (simp add: checkIfCityInFavorites_def scenario_def isFavorite_item_def isFavorite_try_def
        andThen_def example_defs)

lemma ex_check_deleted:
  "\<not> checkIfCityInFavorites example_platform (Inr [paris_T3]) ''Paris'' (JNum 10)"
  by (simp add: checkIfCityInFavorites_def isFavorite_item_def isFavorite_try_def
        andThen_def example_defs)

lemma ex_matching_scenario:
  "matchingItems example_platform (example_snapshot paris) scenario = [paris_T1, paris_T2]"
  by (simp add: matchingItems_def matchingItems_keep_def skip_deleted_try_def weatherIdMatches_def
        scenario_def andThen_def example_snapshot_def paris_def example_defs)

lemma ex_absent:
  "logically_absent example_platform paris_T3" "soft_deleted example_platform paris_T3"
  by (simp_all add: logically_absent_def soft_deleted_def parse_fails_def metadata_deleted_def
        example_defs)

theorem soft_deleted_never_matched_witness:
  "favorites_of example_platform scenario = [paris_T2] \<and>
   favorites_of example_platform (present example_platform scenario) = [paris_T2] \<and>
   logically_absent example_platform paris_T3 \<and>
   \<not> logically_absent example_platform paris_T2 \<and>
   listItems (example_services (Inr scenario) []) = Inr scenario \<and>
   touched (snd (updateAllFavorites (example_services (Inr scenario) []) example_platform)) =
     [paris_T2, paris_T2] \<and>
   soft_deleted example_platform paris_T3 \<and>
   not_soft_deleted example_platform scenario = [paris_T1, paris_T2] \<and>
   checkIfCityInFavorites example_platform (Inr scenario) ''Paris'' (JNum 10) \<and>
   \<not> checkIfCityInFavorites example_platform (Inr [paris_T3]) ''Paris'' (JNum 10) \<and>
   isCityInFavorites example_platform (Inr scenario) ''Paris'' (JNum 10) \<and>
   \<not> isCityInFavorites example_platform (Inr [paris_T3]) ''Paris'' (JNum 10) \<and>
   matchingItems example_platform (example_snapshot paris) scenario = [paris_T1, paris_T2] \<and>
   snd (toggleFavorite example_platform 5000 (Inr scenario) (Inr scenario)
          (upsertItem (example_services (Inr scenario) [])) (example_snapshot paris)) =
     map (emptyInput example_platform 5000 (example_snapshot paris)) [paris_T1, paris_T2]"
proof -
  have nsd: "not_soft_deleted example_platform scenario = [paris_T1, paris_T2]"
    by (simp add: not_soft_deleted_def soft_deleted_def parse_fails_def metadata_deleted_def
          scenario_def example_defs)
  have apart: "\<forall>b\<in>set (chop3 (favorites_of example_platform scenario)).
                 keys_apart (example_services (Inr scenario) []) example_platform b"
    by (simp add: ex_favs keys_apart_def)
  have own: "own_update (example_services (Inr scenario) []) example_platform paris_T2 =
     [Task paris_T2 (FetchWeather (example_city ''Paris'' 48 2 ''FR'')),
      Task paris_T2 (saved_as ''b'' ''Paris'')]"
    unfolding paris_T2_def
    by (simp add: own_update_def attempt_def ex_resolution ex_own_fetch ex_saved ex_geo)
  have tch: "touched (snd (updateAllFavorites (example_services (Inr scenario) []) example_platform)) =
             [paris_T2, paris_T2]"
    using run_apart [OF _ apart]
    by (simp add: example_services_fields(1) ex_favs own touched_def)
  have chk: "isCityInFavorites example_platform (Inr scenario)
               (wd_city (example_snapshot paris)) (wd_weatherId (example_snapshot paris))"
    using ex_check_scenario by (simp add: isCityInFavorites_def example_snapshot_def paris_def)
  show ?thesis
    using soft_deleted_never_matched
      [of example_platform scenario "example_services (Inr scenario) []" scenario "''Paris''"
          "JNum 10" "example_snapshot paris" "Inr scenario" 5000
          "upsertItem (example_services (Inr scenario) [])"]
      chk
    by (simp add: ex_favs ex_absent nsd ex_check_scenario ex_check_deleted ex_matching_scenario
          example_services_fields tch isCityInFavorites_def)
qed

text \<open>
  A Paris with content and with a metadata string that is not JSON counts as a favourite
  for \<open>checkIfCityInFavorites\<close> and is in the matching set of \<open>toggleFavorite\<close>.
\<close>

theorem unparseable_record_counterexample:
  "parse_fails example_platform paris_broken \<and>
   item_content paris_broken \<noteq> [] \<and>
   checkIfCityInFavorites example_platform (Inr [paris_broken]) ''Paris'' JUndefined \<and>
   matchingItems example_platform (example_snapshot paris) [paris_broken] = [paris_broken]"
  by (simp add: parse_fails_def checkIfCityInFavorites_def isFavorite_item_def isFavorite_try_def
        matchingItems_def matchingItems_keep_def skip_deleted_try_def weatherIdMatches_def
        example_snapshot_def paris_def example_defs)

subsection \<open>A fetch that fails\<close>

lemma fetch_in_state_weather_data:
  "weather_data (snd (fetch_in_state P N st city)) = weather_data st"
  by (simp add: fetch_in_state_def split: prod.splits)

lemma clear_removes:
  "cityKey P city = Inr key \<Longrightarrow> weather_data (evicted P st city) key = None"
  by (simp add: evicted_def clearCityWeatherCache_def andThen_def Let_def split: option.splits)

lemma clear_returns:
  "cityKey P city = Inr key \<Longrightarrow> clearCityWeatherCache P st city = Inr (evicted P st city)"
  by (simp add: evicted_def clearCityWeatherCache_def andThen_def Let_def split: option.splits)

lemma getWeatherData_returns: "\<exists>r. fst (getWeatherData P N st city forceRefresh) = Inr r"
  by (simp add: getWeatherData_def split: prod.splits sum.splits)

text \<open>
  Claim C5, as the code has it. \<open>getWeatherData\<close> never raises. When the device is online,
  the cache entry of the city is expired or a refresh is forced, and the fetch fails, it
  returns the snapshot cached under the city's key if there is one at that point and
  \<open>null\<close> if there is none; on a forced refresh the entry has just been evicted, so the
  result is \<open>null\<close>. For a city whose key cannot be built it returns \<open>null\<close> and leaves
  the state as it is.
\<close>

theorem fetch_failure_is_swallowed:
  "(\<exists>r. fst (getWeatherData P N st city forceRefresh) = Inr r) \<and>
   (cityKey P city = Inr key \<and>
    isInternetAvailable (net_networkState N) \<and>
    isCacheExpired (weather_last_fetch st) key (net_now N) forceRefresh \<and>
    fst (fetch_in_state P N (if forceRefresh then evicted P st city else st) city) = Inl e \<longrightarrow>
    fst (getWeatherData P N st city forceRefresh) =
      Inr (if forceRefresh then None else weather_data st key)) \<and>
   (cityKey P city = Inl e \<longrightarrow> getWeatherData P N st city forceRefresh = (Inr None, st))"
proof (intro conjI impI)
  show "\<exists>r. fst (getWeatherData P N st city forceRefresh) = Inr r"
    by (rule getWeatherData_returns)
next
  let ?st1 = "if forceRefresh then evicted P st city else st"
  assume a: "cityKey P city = Inr key \<and>
    isInternetAvailable (net_networkState N) \<and>
    isCacheExpired (weather_last_fetch st) key (net_now N) forceRefresh \<and>
    fst (fetch_in_state P N ?st1 city) = Inl e"
  obtain r st2 where f: "fetch_in_state P N ?st1 city = (r, st2)"
    by (cases "fetch_in_state P N ?st1 city") auto
  with a have r: "r = Inl e" by simp
  from f fetch_in_state_weather_data [of P N ?st1 city]
  have wd: "weather_data st2 = weather_data ?st1" by simp
  from a have k: "cityKey P city = Inr key" by simp
  have c: "(if forceRefresh then clearCityWeatherCache P st city else Inr st) = Inr ?st1"
    by (simp add: clear_returns [OF k])
  have "weather_data ?st1 key = (if forceRefresh then None else weather_data st key)"
    by (simp add: clear_removes [OF k])
  with a f r wd have "fst (fetch_fresh P N st city key forceRefresh) =
      Inr (if forceRefresh then None else weather_data st key) \<or>
      (fst (fetch_fresh P N st city key forceRefresh) = Inl e \<and>
       (if forceRefresh then None else weather_data st key) = None)"
    unfolding fetch_fresh_def c by (auto split: option.splits)
  with a show "fst (getWeatherData P N st city forceRefresh) =
      Inr (if forceRefresh then None else weather_data st key)"
    by (auto simp: getWeatherData_def getWeatherData_try_def Let_def
          split: prod.splits sum.splits)
next
  assume "cityKey P city = Inl e"
  then show "getWeatherData P N st city forceRefresh = (Inr None, st)"
    by (simp add: getWeatherData_def getWeatherData_try_def)
qed

lemma failing_net_fields:
  "net_networkState failing_net = Inr (True, True)"
  "net_now failing_net = 5000"
  "fetch_weather failing_net lat lon = Inl NetworkError"
  "fetch_forecast failing_net lat lon = Inl NetworkError"
  by (simp_all add: failing_net_def)

lemma empty_state_fields:
  "weather_data empty_state = Map.empty"
  "weather_last_fetch empty_state = Map.empty"
  "weather_pending_requests empty_state = None"
  "activeRequests empty_state = Map.empty"
  by (simp_all add: empty_state_def)

lemma cached_state_fields:
  "weather_data cached_state = [''Paris-FR'' \<mapsto> example_snapshot paris]"
  "weather_last_fetch cached_state = Map.empty"
  "weather_pending_requests cached_state = None"
  "activeRequests cached_state = Map.empty"
  by (simp_all add: cached_state_def empty_state_def)

lemma failing_fetch_any:
  "activeRequests st = Map.empty \<Longrightarrow>
   fst (fetch_in_state example_platform failing_net st paris) = Inl NetworkError"
  by (simp add: fetch_in_state_def fetchWeatherFromApi_def Let_def failing_net_fields
        request_outcome_def andThen_def paris_key paris_text)

lemma failing_fetch:
  "fetch_in_state example_platform failing_net empty_state paris = (Inl NetworkError, empty_state)"
  by (simp add: fetch_in_state_def fetchWeatherFromApi_def Let_def failing_net_fields
        empty_state_fields request_outcome_def andThen_def paris_key paris_text)

lemma clear_active: "activeRequests (evicted P st city) = activeRequests st"
  by (simp add: evicted_def clearCityWeatherCache_def andThen_def Let_def
        split: option.splits sum.splits)

lemma nowhere_key: "cityKey example_platform nowhere = Inl TypeError"
  by (simp add: cityKey_def nowhere_def andThen_def)

theorem fetch_failure_is_swallowed_witness:
  "cityKey example_platform paris = Inr ''Paris-FR'' \<and>
   isInternetAvailable (net_networkState failing_net) \<and>
   isCacheExpired (weather_last_fetch cached_state) ''Paris-FR'' (net_now failing_net) False \<and>
   fst (fetch_in_state example_platform failing_net cached_state paris) = Inl NetworkError \<and>
   fst (getWeatherData example_platform failing_net cached_state paris False) =
     Inr (Some (example_snapshot paris)) \<and>
   fst (getWeatherData example_platform failing_net empty_state paris False) = Inr None \<and>
   fst (fetch_in_state example_platform failing_net
          (evicted example_platform cached_state paris) paris) = Inl NetworkError \<and>
   fst (getWeatherData example_platform failing_net cached_state paris True) = Inr None \<and>
   cityKey example_platform nowhere = Inl TypeError \<and>
   getWeatherData example_platform failing_net cached_state nowhere False =
     (Inr None, cached_state)"
proof -
  have on: "isInternetAvailable (net_networkState failing_net)"
    by (simp add: isInternetAvailable_def failing_net_fields)
  have f1: "fst (fetch_in_state example_platform failing_net cached_state paris) = Inl NetworkError"
    by (simp add: failing_fetch_any cached_state_fields)
  have f2: "fst (fetch_in_state example_platform failing_net empty_state paris) = Inl NetworkError"
    by (simp add: failing_fetch_any empty_state_fields)
  have f3: "fst (fetch_in_state example_platform failing_net
          (evicted example_platform cached_state paris) paris) = Inl NetworkError"
    by (simp add: failing_fetch_any clear_active cached_state_fields)
  show ?thesis
    using fetch_failure_is_swallowed
            [of example_platform failing_net cached_state paris False "''Paris-FR''" NetworkError]
          fetch_failure_is_swallowed
            [of example_platform failing_net empty_state paris False "''Paris-FR''" NetworkError]
          fetch_failure_is_swallowed
            [of example_platform failing_net cached_state paris True "''Paris-FR''" NetworkError]
          fetch_failure_is_swallowed
            [of example_platform failing_net cached_state nowhere False "''Paris-FR''" TypeError]
    by (simp add: on isCacheExpired_def f1 f2 f3 cached_state_fields empty_state_fields paris_key
          nowhere_key)
qed

text \<open>
  Online, with nothing cached for Paris and every \<open>fetch\<close> rejecting, \<open>getWeatherData\<close>
  returns \<open>null\<close>: the error thrown again by the inner handler is caught by the outer one.
\<close>

theorem fetch_failure_counterexample:
  "isInternetAvailable (net_networkState failing_net) \<and>
   cityKey example_platform paris = Inr ''Paris-FR'' \<and>
   isCacheExpired (weather_last_fetch empty_state) ''Paris-FR'' (net_now failing_net) False \<and>
   fst (fetch_in_state example_platform failing_net empty_state paris) = Inl NetworkError \<and>
   weather_data empty_state ''Paris-FR'' = None \<and>
   getWeatherData example_platform failing_net empty_state paris False = (Inr None, empty_state)"
  by (simp add: failing_fetch isInternetAvailable_def failing_net_fields empty_state_fields
        isCacheExpired_def getWeatherData_def getWeatherData_try_def fetch_fresh_def Let_def
        paris_key)

subsection \<open>Offline without a snapshot\<close>

lemma strict_eq_JStr: "strict_eq v (JStr c) = (v = JStr c)"
  by (cases v) auto

lemma store_exists:
  "city_country city = JStr c \<Longrightarrow>
   (\<lambda>x. city_name x = city_name city \<and> strict_eq (city_country x) (city_country city))
     = same_city city"
  by (auto simp: fun_eq_iff same_city_def strict_eq_JStr)

lemma same_city_refl: "same_city city city"
  by (simp add: same_city_def)

lemma storePendingRequest_queue:
  assumes c: "city_country city = JStr c"
  shows "queue (storePendingRequest st city) =
     (if list_ex (same_city city) (queue st) then queue st else queue st @ [city])"
  unfolding storePendingRequest_def Let_def store_exists [OF c] queue_def
  by (simp split: option.splits)

lemma storePendingRequest_again:
  assumes c: "city_country city = JStr c"
  shows "storePendingRequest (storePendingRequest st city) city = storePendingRequest st city"
proof -
  have "list_ex (same_city city) (queue (storePendingRequest st city))"
    unfolding storePendingRequest_queue [OF c] by (simp add: same_city_refl)
  then show ?thesis
    unfolding storePendingRequest_def [of "storePendingRequest st city"] Let_def
      store_exists [OF c] queue_def
    by simp
qed

lemma storePendingRequest_cache:
  "weather_data (storePendingRequest st city) = weather_data st"
  by (simp add: storePendingRequest_def Let_def)

lemma offline_cold:
  "\<not> isInternetAvailable (net_networkState N) \<Longrightarrow> cityKey P city = Inr key \<Longrightarrow>
   weather_data st key = None \<Longrightarrow>
   getWeatherData P N st city forceRefresh = (Inr None, storePendingRequest st city)"
  by (simp add: getWeatherData_def getWeatherData_try_def Let_def)

lemma count_after_append:
  "length (filter (same_city city) (cs @ [city])) = Suc (length (filter (same_city city) cs))"
  by (simp add: same_city_def)

lemma list_ex_count: "list_ex p cs = (0 < length (filter p cs))"
  by (induction cs) auto

lemma count_after_store:
  "length (filter (same_city city) cs) \<le> 1 \<Longrightarrow>
   length (filter (same_city city)
     (if list_ex (same_city city) cs then cs else cs @ [city])) = 1"
proof (cases "list_ex (same_city city) cs")
  case True
  assume "length (filter (same_city city) cs) \<le> 1"
  moreover from True have "0 < length (filter (same_city city) cs)"
    by (simp only: list_ex_count)
  ultimately have "length (filter (same_city city) cs) = 1" by arith
  with True show ?thesis by (simp only: if_True)
next
  case False
  then have "length (filter (same_city city) cs) = 0"
    by (simp only: list_ex_count)
  with False show ?thesis by (simp add: same_city_refl)
qed

text \<open>
  Claim C8. When the device is offline and nothing is cached under the key of a city
  (whose country is a string, as \<open>City\<close> declares), \<open>getWeatherData\<close> returns \<open>null\<close>
  and the queue of pending requests gets the city at its end unless an entry of the same
  name and country is there already; a second call with the same city returns \<open>null\<close>
  and changes nothing, so that a queue with at most one such entry before has exactly
  one after the two calls.
\<close>

theorem offline_enqueue_once:
  "\<not> isInternetAvailable (net_networkState N) \<and> cityKey P city = Inr key \<and>
   weather_data st key = None \<and> city_country city = JStr c \<longrightarrow>
     fst (getWeatherData P N st city forceRefresh) = Inr None \<and>
     queue (snd (getWeatherData P N st city forceRefresh)) =
       (if list_ex (same_city city) (queue st) then queue st else queue st @ [city]) \<and>
     getWeatherData P N (snd (getWeatherData P N st city forceRefresh)) city forceRefresh' =
       (Inr None, snd (getWeatherData P N st city forceRefresh)) \<and>
     (length (filter (same_city city) (queue st)) \<le> 1 \<longrightarrow>
        length (filter (same_city city)
          (queue (snd (getWeatherData P N
             (snd (getWeatherData P N st city forceRefresh)) city forceRefresh')))) = 1)"
proof (intro impI)
  assume a: "\<not> isInternetAvailable (net_networkState N) \<and> cityKey P city = Inr key \<and>
             weather_data st key = None \<and> city_country city = JStr c"
  then have off: "\<not> isInternetAvailable (net_networkState N)"
    and k: "cityKey P city = Inr key"
    and cold: "weather_data st key = None"
    and c: "city_country city = JStr c" by simp_all
  have g1: "getWeatherData P N st city forceRefresh = (Inr None, storePendingRequest st city)"
    using off k cold by (rule offline_cold)
  have cold2: "weather_data (storePendingRequest st city) key = None"
    using cold by (simp add: storePendingRequest_cache)
  have g2: "getWeatherData P N (storePendingRequest st city) city forceRefresh' =
            (Inr None, storePendingRequest st city)"
    using offline_cold [OF off k cold2] by (simp add: storePendingRequest_again [OF c])
  have q: "queue (storePendingRequest st city) =
           (if list_ex (same_city city) (queue st) then queue st else queue st @ [city])"
    using c by (rule storePendingRequest_queue)
  have one: "length (filter (same_city city) (queue st)) \<le> 1 \<Longrightarrow>
             length (filter (same_city city) (queue (storePendingRequest st city))) = 1"
    unfolding q by (rule count_after_store)
  show "fst (getWeatherData P N st city forceRefresh) = Inr None \<and>
     queue (snd (getWeatherData P N st city forceRefresh)) =
       (if list_ex (same_city city) (queue st) then queue st else queue st @ [city]) \<and>
     getWeatherData P N (snd (getWeatherData P N st city forceRefresh)) city forceRefresh' =
       (Inr None, snd (getWeatherData P N st city forceRefresh)) \<and>
     (length (filter (same_city city) (queue st)) \<le> 1 \<longrightarrow>
        length (filter (same_city city)
          (queue (snd (getWeatherData P N
             (snd (getWeatherData P N st city forceRefresh)) city forceRefresh')))) = 1)"
    using one by (simp add: g1 g2 q)
qed

lemma offline_net_fields:
  "net_networkState offline_net = Inr (False, False)"
  by (simp add: offline_net_def)

theorem offline_enqueue_once_witness:
  "\<not> isInternetAvailable (net_networkState offline_net) \<and>
   cityKey example_platform paris = Inr ''Paris-FR'' \<and>
   weather_data empty_state ''Paris-FR'' = None \<and>
   city_country paris = JStr ''FR'' \<and>
   queue empty_state = [] \<and>
   fst (getWeatherData example_platform offline_net empty_state paris False) = Inr None \<and>
   queue (snd (getWeatherData example_platform offline_net empty_state paris False)) = [paris] \<and>
   queue (snd (getWeatherData example_platform offline_net
     (snd (getWeatherData example_platform offline_net empty_state paris False)) paris False))
     = [paris]"
proof -
  have off: "\<not> isInternetAvailable (net_networkState offline_net)"
    by (simp add: isInternetAvailable_def offline_net_fields)
  have q0: "queue empty_state = []"
    by (simp add: queue_def empty_state_fields)
  have c: "city_country paris = JStr ''FR''"
    by (simp add: paris_def)
  show ?thesis
    using offline_enqueue_once
      [of offline_net example_platform paris "''Paris-FR''" empty_state "''FR''" False False]
    by (simp add: off q0 c empty_state_fields paris_key)
qed

subsection \<open>The identity of a snapshot\<close>

lemma andThen_Inr: "andThen m f = Inr s \<Longrightarrow> \<exists>x. m = Inr x \<and> f x = Inr s"
  by (cases m) (simp_all add: andThen_def)

lemma build_result_identity:
  assumes "build_result P now city currentData forecast = Inr snapshot"
  shows "wd_city snapshot = city_name city \<and> wd_lat snapshot = city_lat city \<and>
         wd_lon snapshot = city_lon city \<and> wd_country snapshot = city_country city"
  using assms unfolding build_result_def
  by (auto dest!: andThen_Inr)

lemma request_outcome_identity:
  assumes "request_outcome P now city weatherPromise forecastPromise = Inr snapshot"
  shows "wd_city snapshot = city_name city \<and> wd_lat snapshot = city_lat city \<and>
         wd_lon snapshot = city_lon city \<and> wd_country snapshot = city_country city"
proof -
  from assms obtain currentData forecast where
    "build_result P now city currentData forecast = Inr snapshot"
    unfolding request_outcome_def
    by (auto dest!: andThen_Inr split: if_splits option.splits)
  then show ?thesis by (rule build_result_identity)
qed

text \<open>
  Claim C10, as the code has it. A call of \<open>fetchWeatherFromApi\<close> that finds no request in
  flight under the key of its city and succeeds returns a snapshot whose \<open>city\<close>, \<open>lat\<close>,
  \<open>lon\<close> and \<open>country\<close> are the name, latitude, longitude and country of that city. A
  call that finds a request in flight under the key returns that request, whatever city
  started it.
\<close>

theorem identity_fields:
  "(cityKey P city = Inr key \<and> active key = None \<and>
    fst (fetchWeatherFromApi P N active city) = Inr snapshot \<longrightarrow>
      wd_city snapshot = city_name city \<and> wd_lat snapshot = city_lat city \<and>
      wd_lon snapshot = city_lon city \<and> wd_country snapshot = city_country city) \<and>
   (cityKey P city = Inr key \<and> active key = Some inFlight \<longrightarrow>
      fetchWeatherFromApi P N active city = (inFlight, active))"
proof (rule conjI)
  show "cityKey P city = Inr key \<and> active key = None \<and>
    fst (fetchWeatherFromApi P N active city) = Inr snapshot \<longrightarrow>
      wd_city snapshot = city_name city \<and> wd_lat snapshot = city_lat city \<and>
      wd_lon snapshot = city_lon city \<and> wd_country snapshot = city_country city"
  proof (rule impI)
    assume a: "cityKey P city = Inr key \<and> active key = None \<and>
               fst (fetchWeatherFromApi P N active city) = Inr snapshot"
    then have k: "cityKey P city = Inr key" and none: "active key = None"
      and r: "fst (fetchWeatherFromApi P N active city) = Inr snapshot" by simp_all
    from r k none obtain lat lon where
      "request_outcome P (net_now N) city (fetch_weather N lat lon) (fetch_forecast N lat lon) =
         Inr snapshot"
      by (auto simp: fetchWeatherFromApi_def Let_def split: sum.splits)
    then show "wd_city snapshot = city_name city \<and> wd_lat snapshot = city_lat city \<and>
        wd_lon snapshot = city_lon city \<and> wd_country snapshot = city_country city"
      by (rule request_outcome_identity)
  qed
next
  show "cityKey P city = Inr key \<and> active key = Some inFlight \<longrightarrow>
      fetchWeatherFromApi P N active city = (inFlight, active)"
    by (simp add: fetchWeatherFromApi_def)
qed

lemma springfield_keys:
  "cityKey example_platform springfield_il = Inr ''Springfield-US''"
  "cityKey example_platform springfield_ma = Inr ''Springfield-US''"
  by (simp_all add: cityKey_def springfield_il_def springfield_ma_def andThen_def)

lemma springfield_texts:
  "coordinates_text example_platform springfield_il = Inr (''39'', ''-89'')"
  "coordinates_text example_platform springfield_ma = Inr (''42'', ''-72'')"
  by (simp_all add: coordinates_text_def springfield_il_def springfield_ma_def andThen_def
        example_platform_fields example_number_def)

lemma springfield_fetch:
  "fetchWeatherFromApi example_platform example_net Map.empty springfield_il =
     (Inr (example_snapshot springfield_il), Map.empty)"
  "fetchWeatherFromApi example_platform example_net Map.empty springfield_ma =
     (Inr (example_snapshot springfield_ma), Map.empty)"
  by (simp_all add: fetchWeatherFromApi_def Let_def springfield_keys springfield_texts
        example_net_fields(2) example_request)

theorem identity_fields_witness:
  "cityKey example_platform springfield_ma = Inr ''Springfield-US'' \<and>
   fst (fetchWeatherFromApi example_platform example_net Map.empty springfield_ma) =
     Inr (example_snapshot springfield_ma) \<and>
   wd_city (example_snapshot springfield_ma) = ''Springfield'' \<and>
   wd_lat (example_snapshot springfield_ma) = JNum 42 \<and>
   wd_lon (example_snapshot springfield_ma) = JNum (-72) \<and>
   wd_country (example_snapshot springfield_ma) = JStr ''US'' \<and>
   fetchWeatherFromApi example_platform example_net
     [''Springfield-US'' \<mapsto> Inr (example_snapshot springfield_il)] springfield_ma =
     (Inr (example_snapshot springfield_il),
      [''Springfield-US'' \<mapsto> Inr (example_snapshot springfield_il)])"
proof -
  have f: "fst (fetchWeatherFromApi example_platform example_net Map.empty springfield_ma) =
           Inr (example_snapshot springfield_ma)"
    by (simp add: springfield_fetch)
  show ?thesis
    using identity_fields
            [of example_platform springfield_ma "''Springfield-US''" Map.empty example_net
                "example_snapshot springfield_ma"]
          identity_fields
            [of example_platform springfield_ma "''Springfield-US''"
                "[''Springfield-US'' \<mapsto> Inr (example_snapshot springfield_il)]"
                example_net _ "Inr (example_snapshot springfield_il)"]
    by (simp add: f springfield_keys) (simp add: springfield_ma_def)
qed

lemma run_springfield:
  "run example_platform
     [Call 2 springfield_il, Call 3 springfield_ma, Settle 0 5000 ok_weather ok_forecast] =
   \<lparr>cs_activeRequests = [''Springfield-US'' \<mapsto> 0],
    cs_requests = [\<lparr>req_key = ''Springfield-US'', req_city = springfield_il,
                     req_lat = ''39'', req_lon = ''-89'',
                     req_value = Some (Inr (example_snapshot springfield_il))\<rparr>],
    cs_awaiting = [0],
    cs_returned = [2 \<mapsto> Inr 0, 3 \<mapsto> Inr 0]\<rparr>"
  by (simp add: run_def initial_calls_def do_call_def do_settle_def springfield_keys
        springfield_texts Let_def ok_outcome)

text \<open>
  Springfield, Illinois, and Springfield, Massachusetts, have one cache key. While the
  request for the first is in flight, a call for the second returns the snapshot of the
  first, with latitude \<open>39\<close> and not \<open>42\<close>: so it is for a call that finds the request
  stored, and so it is when caller \<open>3\<close> asks for the second city after caller \<open>2\<close> has
  asked for the first and before the answers arrive.
\<close>

theorem shared_request_counterexample:
  "cityKey example_platform springfield_ma = cityKey example_platform springfield_il \<and>
   fst (fetchWeatherFromApi example_platform example_net Map.empty springfield_il) =
     Inr (example_snapshot springfield_il) \<and>
   fst (fetchWeatherFromApi example_platform example_net
          [''Springfield-US'' \<mapsto> Inr (example_snapshot springfield_il)]
          springfield_ma) = Inr (example_snapshot springfield_il) \<and>
   received (run example_platform
     [Call 2 springfield_il, Call 3 springfield_ma, Settle 0 5000 ok_weather ok_forecast]) 3 =
     Some (Inr (example_snapshot springfield_il)) \<and>
   wd_lat (example_snapshot springfield_il) = JNum 39 \<and>
   city_lat springfield_ma = JNum 42"
proof -
  have f: "fst (fetchWeatherFromApi example_platform example_net Map.empty springfield_il) =
           Inr (example_snapshot springfield_il)"
    by (simp add: springfield_fetch)
  have g: "fst (fetchWeatherFromApi example_platform example_net
          [''Springfield-US'' \<mapsto> Inr (example_snapshot springfield_il)]
          springfield_ma) = Inr (example_snapshot springfield_il)"
    by (simp add: springfield_keys fetchWeatherFromApi_def)
  have r: "received (run example_platform
     [Call 2 springfield_il, Call 3 springfield_ma, Settle 0 5000 ok_weather ok_forecast]) 3 =
     Some (Inr (example_snapshot springfield_il))"
    by (simp add: run_springfield received_def)
  have l: "wd_lat (example_snapshot springfield_il) = JNum 39"
    by (simp add: example_snapshot_def springfield_il_def)
  have m: "city_lat springfield_ma = JNum 42"
    by (simp add: springfield_ma_def)
  from f g r l m show ?thesis by (simp add: springfield_keys)
qed

subsection \<open>Searching for cities\<close>

text \<open>
  Claim C9. \<open>searchCities\<close> returns the empty list for a query of fewer than two
  characters and makes no call for it, neither for the network state nor to the
  geocoding endpoint. It never raises: when the device is online and the request
  rejects, is answered with a status that is not \<open>ok\<close>, or has a body that does not
  parse, the result is the empty list.
\<close>

theorem searchCities_never_raises:
  "(length query < 2 \<longrightarrow> searchCities P G query = (Inr [], [])) \<and>
   (\<exists>cities. fst (searchCities P G query) = Inr cities) \<and>
   (2 \<le> length query \<and> isInternetAvailable (geo_networkState G) \<and>
    (geo_fetch G query = Inl e \<or>
     (\<exists>r. geo_fetch G query = Inr r \<and> (\<not> geo_ok r \<or> geo_json r = None))) \<longrightarrow>
      searchCities P G query = (Inr [], [GetNetworkState, GeoFetch query]))"
proof (intro conjI impI)
  assume "length query < 2"
  then show "searchCities P G query = (Inr [], [])"
    by (simp add: searchCities_def)
next
  show "\<exists>cities. fst (searchCities P G query) = Inr cities"
    by (simp add: searchCities_def split: prod.splits sum.splits)
next
  assume "2 \<le> length query \<and> isInternetAvailable (geo_networkState G) \<and>
    (geo_fetch G query = Inl e \<or>
     (\<exists>r. geo_fetch G query = Inr r \<and> (\<not> geo_ok r \<or> geo_json r = None)))"
  then show "searchCities P G query = (Inr [], [GetNetworkState, GeoFetch query])"
    by (auto simp: searchCities_def searchCities_try_def split: sum.splits option.splits)
qed

lemma geo_answers_fields:
  "geo_networkState (geo_answers answer) = Inr (True, True)"
  "geo_fetch (geo_answers answer) q = answer"
  by (simp_all add: geo_answers_def)

theorem searchCities_never_raises_witness:
  "searchCities example_platform geo_offline ''a'' = (Inr [], []) \<and>
   searchCities example_platform (geo_answers (Inl NetworkError)) ''a'' = (Inr [], []) \<and>
   isInternetAvailable (geo_networkState (geo_answers (Inl NetworkError))) \<and>
   searchCities example_platform (geo_answers (Inl NetworkError)) ''Paris'' =
     (Inr [], [GetNetworkState, GeoFetch ''Paris'']) \<and>
   searchCities example_platform
     (geo_answers (Inr \<lparr>geo_ok = False, geo_status = 500, geo_json = Some [paris]\<rparr>)) ''Paris'' =
     (Inr [], [GetNetworkState, GeoFetch ''Paris'']) \<and>
   searchCities example_platform
     (geo_answers (Inr \<lparr>geo_ok = True, geo_status = 200, geo_json = None\<rparr>)) ''Paris'' =
     (Inr [], [GetNetworkState, GeoFetch ''Paris''])"
  using searchCities_never_raises [of "''a''" example_platform geo_offline]
        searchCities_never_raises [of "''a''" example_platform "geo_answers (Inl NetworkError)"]
        searchCities_never_raises
          [of "''Paris''" example_platform "geo_answers (Inl NetworkError)" NetworkError]
        searchCities_never_raises
          [of "''Paris''" example_platform
              "geo_answers (Inr \<lparr>geo_ok = False, geo_status = 500, geo_json = Some [paris]\<rparr>)"]
        searchCities_never_raises
          [of "''Paris''" example_platform
              "geo_answers (Inr \<lparr>geo_ok = True, geo_status = 200, geo_json = None\<rparr>)"]
  by (simp add: geo_answers_fields isInternetAvailable_def)

end
